(* ===== verification/Prelude.thy ===== *)
theory Prelude
  imports Complex_Main
begin

text \<open>
  Shared vocabulary of the development.  JavaScript object references are
  modelled as natural-number addresses into explicit heaps (partial maps),
  so that the identity comparisons of the code (\<open>===\<close>, \<open>!==\<close>) are
  comparisons of addresses; JavaScript \<open>undefined\<close> is \<open>None\<close>.  This theory
  holds the type names of the model, the collection \<open>heap_simps\<close> of
  allocation and update facts the component theories share, and generic
  lemmas on the list operation \<open>Array.prototype.splice\<close> at the first index
  satisfying a test, which the notifier uses to remove a listener.
\<close>

type_synonym addr = nat     \<comment> \<open>reference to a property object or a result object\<close>
type_synonym caddr = nat    \<comment> \<open>reference to a mutable \<open>Color\<close> object\<close>
type_synonym evid = nat     \<comment> \<open>reference to an \<open>Event\<close> (change notifier) object\<close>
type_synonym handle = nat   \<comment> \<open>identity of one registration in an \<open>Event\<close>\<close>
type_synonym time = int     \<comment> \<open>a \<open>JulianDate\<close>; the modelled code only passes it on\<close>

named_theorems heap_simps "allocation and update facts of the model's heaps"

text \<open>
  \<open>splice_first P xs\<close>: find the first index whose element satisfies \<open>P\<close>
  and splice one element out there; the list is unchanged when there is none.
\<close>

abbreviation splice_first :: "('a \<Rightarrow> bool) \<Rightarrow> 'a list \<Rightarrow> 'a list" where
  "splice_first P xs \<equiv> takeWhile (\<lambda>x. \<not> P x) xs @ tl (dropWhile (\<lambda>x. \<not> P x) xs)"

lemma splice_first_no_match [simp]:
  "\<not> (\<exists>x\<in>set xs. P x) \<Longrightarrow> splice_first P xs = xs"
  by (induction xs) auto

lemma in_set_tlD [dest]: "x \<in> set (tl xs) \<Longrightarrow> x \<in> set xs"
  by (cases xs) auto

lemma in_set_splice_firstD [dest]:
  "x \<in> set (takeWhile P xs) \<or> x \<in> set (tl (dropWhile P xs)) \<Longrightarrow> x \<in> set xs"
  by (auto dest: set_takeWhileD set_dropWhileD)

lemma splice_first_subset:
  "set (splice_first P xs) \<subseteq> set xs"
proof (induction xs)
  case Nil
  then show ?case by simp
next
  case (Cons x xs)
  then show ?case by (auto dest: in_set_dropD list.set_sel(2))
qed

lemma filter_splice_first_other [simp]:
  "(\<And>x. Q x \<Longrightarrow> \<not> P x) \<Longrightarrow> filter Q (splice_first P xs) = filter Q xs"
  by (induction xs) auto

lemma splice_first_unique:
  assumes "distinct (map f xs)"
  shows "splice_first (\<lambda>x. f x = k) xs = filter (\<lambda>x. f x \<noteq> k) xs"
  using assms
proof (induction xs)
  case Nil
  then show ?case by simp
next
  case (Cons x xs)
  show ?case
  proof (cases "f x = k")
    case True
    with Cons.prems have "\<forall>y\<in>set xs. f y \<noteq> k" by (auto simp: image_iff)
    with True show ?thesis by (simp add: filter_id_conv)
  next
    case False
    with Cons show ?thesis by simp
  qed
qed

lemma map_filter_distinct [intro]:
  "distinct (map f xs) \<Longrightarrow> distinct (map f (filter P xs))"
  by (induction xs) auto

lemma distinct_map_snoc_fresh [intro]:
  fixes f :: "'a \<Rightarrow> nat"
  assumes "distinct (map f xs)" and "\<forall>x\<in>set xs. f x < f y"
  shows "distinct (map f (xs @ [y]))"
proof -
  from assms(2) have "f y \<notin> f ` set xs" by fastforce
  with assms(1) show ?thesis by simp
qed

end
