(* ===== verification/Color.thy ===== *)
theory Color
  imports Prelude
begin

text \<open>
  \<open>Core/Color.js\<close> as far as the arrow material uses it (the file is not
  under \<open>src/\<close>; it is modelled from the contract the spec states).  A
  \<open>Color\<close> is a mutable object with four numeric components; \<open>Color.WHITE\<close>
  is a shared immutable constant, held here as a value; \<open>Color.clone\<close>
  either allocates a new object or writes the components into a caller
  supplied one.  Mutable colour objects live in the heap \<open>color_heap\<close>.
\<close>

record color =
  red :: real
  green :: real
  blue :: real
  alpha :: real

definition color_WHITE :: color where
  "color_WHITE = \<lparr>red = 1, green = 1, blue = 1, alpha = 1\<rparr>"

record color_heap =
  colors :: "caddr \<rightharpoonup> color"
  next_color :: caddr

text \<open>
  \<open>Color.clone(color, result)\<close>: with no \<open>result\<close> a new \<open>Color\<close> is
  allocated; otherwise the components are written into \<open>result\<close>, which is
  returned.  The address returned is the object the caller receives.
\<close>

fun color_clone :: "color \<Rightarrow> caddr option \<Rightarrow> color_heap \<Rightarrow> caddr \<times> color_heap" where
  "color_clone c None h =
     (next_color h, h\<lparr>colors := (colors h)(next_color h \<mapsto> c), next_color := Suc (next_color h)\<rparr>)"
| "color_clone c (Some r) h = (r, h\<lparr>colors := (colors h)(r \<mapsto> c)\<rparr>)"

text \<open>Allocation discipline: every allocated colour lies below the next free address.\<close>

definition color_heap_wf :: "color_heap \<Rightarrow> bool" where
  "color_heap_wf h \<longleftrightarrow> (\<forall>r\<in>dom (colors h). r < next_color h)"

subsection \<open>Properties of \<open>Color.clone\<close>\<close>

lemma color_clone_value [heap_simps]:
  "colors (snd (color_clone c r h)) (fst (color_clone c r h)) = Some c"
  by (cases r) auto

lemma color_clone_addr:
  "fst (color_clone c r h) = (case r of None \<Rightarrow> next_color h | Some r' \<Rightarrow> r')"
  by (cases r) auto

lemma color_clone_other [heap_simps]:
  "x \<noteq> fst (color_clone c r h) \<Longrightarrow> colors (snd (color_clone c r h)) x = colors h x"
  by (cases r) auto

lemma color_clone_next_mono:
  "next_color h \<le> next_color (snd (color_clone c r h))"
  by (cases r) auto

lemma color_clone_wf [heap_simps]:
  "color_heap_wf h \<Longrightarrow> (\<And>r'. r = Some r' \<Longrightarrow> r' < next_color h) \<Longrightarrow>
   color_heap_wf (snd (color_clone c r h))"
  by (cases r) (auto simp: color_heap_wf_def domI less_SucI)

text \<open>
  Without a result object the copy is fresh: it is no object that existed
  before, so nobody else holds a reference to it.
\<close>

lemma color_clone_fresh:
  "color_heap_wf h \<Longrightarrow> colors h (fst (color_clone c None h)) = None"
  by (auto simp: color_heap_wf_def)

end
