(* ===== verification/Event.thy ===== *)
theory Event
  imports Prelude
begin

text \<open>
  The change notifier, \<open>Core/Event.js\<close> (not under \<open>src/\<close>: modelled from
  the contract of spec section 4.2).  An \<open>Event\<close> is an ordered list of
  registrations; \<open>addEventListener\<close> appends one and returns its handle,
  \<open>removeEventListener\<close> splices the registration with that handle out, and
  \<open>raiseEvent\<close> calls the registered callbacks synchronously in
  registration order over the list as it was when dispatch began.

  Callbacks are a datatype: \<open>Forward e\<close> is the closure that a composite
  property registers on a sub-property (it re-raises the composite's own
  event \<open>e\<close>), \<open>Observer k\<close> is a host callback, whose only effect is to
  append \<open>k\<close> to the observation \<open>log\<close>.  A \<open>Forward\<close> raises another event
  in the middle of dispatch, so dispatch is re-entrant and need not end
  (a composite that forwards to itself would recurse until the stack
  overflows); it is therefore defined with fuel, the depth of nested
  dispatch, and \<open>None\<close> is the exhausted stack.  The pure function \<open>fired\<close>
  is the abstract specification: the observers reached, in order.
\<close>

datatype listener = Forward evid | Observer nat

record notifier_state =
  events :: "evid \<Rightarrow> (handle \<times> listener) list"
  next_ev :: evid
  next_handle :: handle
  log :: "nat list"

definition addEventListener ::
  "evid \<Rightarrow> listener \<Rightarrow> notifier_state \<Rightarrow> handle \<times> notifier_state" where
  "addEventListener e l s =
     (next_handle s,
      s\<lparr>events := (events s)(e := events s e @ [(next_handle s, l)]),
        next_handle := Suc (next_handle s)\<rparr>)"

definition removeEventListener ::
  "evid \<Rightarrow> handle \<Rightarrow> notifier_state \<Rightarrow> bool \<times> notifier_state" where
  "removeEventListener e h s =
     (if list_ex (\<lambda>x. fst x = h) (events s e)
      then (True, s\<lparr>events := (events s)(e := splice_first (\<lambda>x. fst x = h) (events s e))\<rparr>)
      else (False, s))"

fun raiseEvent :: "nat \<Rightarrow> evid \<Rightarrow> notifier_state \<Rightarrow> notifier_state option"
and deliver :: "nat \<Rightarrow> (handle \<times> listener) list \<Rightarrow> notifier_state \<Rightarrow> notifier_state option"
where
  "raiseEvent 0 e s = None"
| "raiseEvent (Suc n) e s = deliver n (events s e) s"
| "deliver n [] s = Some s"
| "deliver n ((h, Observer k) # ls) s = deliver n ls (s\<lparr>log := log s @ [k]\<rparr>)"
| "deliver n ((h, Forward e') # ls) s =
     (case raiseEvent n e' s of None \<Rightarrow> None | Some s' \<Rightarrow> deliver n ls s')"

text \<open>The observers a dispatch reaches, as a function of the registrations only.\<close>

fun fired :: "nat \<Rightarrow> evid \<Rightarrow> (evid \<Rightarrow> (handle \<times> listener) list) \<Rightarrow> nat list option"
and fired_list :: "nat \<Rightarrow> (handle \<times> listener) list \<Rightarrow> (evid \<Rightarrow> (handle \<times> listener) list) \<Rightarrow>
                   nat list option"
where
  "fired 0 e E = None"
| "fired (Suc n) e E = fired_list n (E e) E"
| "fired_list n [] E = Some []"
| "fired_list n ((h, Observer k) # ls) E = map_option (Cons k) (fired_list n ls E)"
| "fired_list n ((h, Forward e') # ls) E =
     (case fired n e' E of None \<Rightarrow> None | Some xs \<Rightarrow> map_option ((@) xs) (fired_list n ls E))"

text \<open>Registrations whose callbacks are host observers, and their identities.\<close>

fun observers :: "(handle \<times> listener) list \<Rightarrow> nat list" where
  "observers [] = []"
| "observers ((h, Observer k) # ls) = k # observers ls"
| "observers ((h, Forward e) # ls) = observers ls"

definition is_observer :: "listener \<Rightarrow> bool" where
  "is_observer l \<longleftrightarrow> (case l of Observer _ \<Rightarrow> True | Forward _ \<Rightarrow> False)"

text \<open>
  Well-formedness of the notifier heap: events not yet allocated have no
  registrations, handles are below the next free handle and distinct within
  an event.
\<close>

definition ns_wf :: "notifier_state \<Rightarrow> bool" where
  "ns_wf s \<longleftrightarrow>
     (\<forall>e. next_ev s \<le> e \<longrightarrow> events s e = []) \<and>
     (\<forall>e. distinct (map fst (events s e))) \<and>
     (\<forall>e. \<forall>x\<in>set (events s e). fst x < next_handle s)"

text \<open>A ranking of events that every forwarding registration decreases: no cycles.\<close>

definition ranked :: "(evid \<Rightarrow> nat) \<Rightarrow> (evid \<Rightarrow> (handle \<times> listener) list) \<Rightarrow> bool" where
  "ranked r E \<longleftrightarrow> (\<forall>e h e'. (h, Forward e') \<in> set (E e) \<longrightarrow> r e' < r e)"

subsection \<open>Dispatch refines the specification \<open>fired\<close>\<close>

text \<open>
  Dispatch changes nothing but the log, and what it appends is exactly what
  \<open>fired\<close> computes from the registrations as they were when it began.
\<close>

lemma raiseEvent_fired:
  "raiseEvent n e s = map_option (\<lambda>xs. s\<lparr>log := log s @ xs\<rparr>) (fired n e (events s))"
  and deliver_fired:
  "deliver n ls s = map_option (\<lambda>xs. s\<lparr>log := log s @ xs\<rparr>) (fired_list n ls (events s))"
proof (induction n e s and n ls s rule: raiseEvent_deliver.induct)
  case (4 n h k ls s)
  then show ?case by (simp add: option.map_comp comp_def)
next
  case (5 n h e' ls s)
  then show ?case by (auto simp: option.map_comp comp_def split: option.split)
qed simp_all

subsection \<open>Termination of dispatch\<close>

lemma fired_list_Forward_not_None:
  "fired_list n ls E \<noteq> None \<Longrightarrow> (h, Forward e') \<in> set ls \<Longrightarrow> fired n e' E \<noteq> None"
proof (induction ls)
  case Nil
  then show ?case by simp
next
  case (Cons x ls)
  then show ?case
    by (cases x rule: prod.exhaust, rename_tac h' l, case_tac l)
       (auto split: option.splits)
qed

text \<open>Enough fuel: with a ranking, fuel above the rank of the raised event suffices.\<close>

lemma fired_ranked_Some:
  "ranked r E \<Longrightarrow> r e < n \<Longrightarrow> fired n e E \<noteq> None"
  and fired_list_ranked_Some:
  "ranked r E \<Longrightarrow> (\<forall>h e'. (h, Forward e') \<in> set ls \<longrightarrow> r e' < n) \<Longrightarrow> fired_list n ls E \<noteq> None"
proof (induction n e E and n ls E rule: fired_fired_list.induct)
  case (2 n e E)
  then show ?case by (fastforce simp: ranked_def)
next
  case (5 n h e' ls E)
  then show ?case by (auto split: option.split)
qed simp_all

text \<open>
  A registration that forwards an event to itself makes every dispatch of
  that event recurse without end: no fuel is enough.
\<close>

lemma fired_self_forward:
  "(h, Forward e) \<in> set (E e) \<Longrightarrow> fired n e E = None"
proof (induction n)
  case 0
  show ?case by simp
next
  case (Suc n)
  show ?case
  proof (rule ccontr)
    assume "fired (Suc n) e E \<noteq> None"
    then have "fired_list n (E e) E \<noteq> None" by simp
    then have "fired n e E \<noteq> None" using Suc.prems by (rule fired_list_Forward_not_None)
    with Suc.IH Suc.prems show False by simp
  qed
qed

text \<open>More fuel never changes a completed dispatch.\<close>

lemma fired_Suc:
  "fired n e E = Some xs \<Longrightarrow> fired (Suc n) e E = Some xs"
  and fired_list_Suc:
  "fired_list n ls E = Some xs \<Longrightarrow> fired_list (Suc n) ls E = Some xs"
proof (induction n e E and n ls E arbitrary: xs and xs rule: fired_fired_list.induct)
  case (2 n e E)
  then show ?case by (cases n) auto
next
  case (5 n h e' ls E)
  then show ?case by (auto split: option.splits)
qed auto

lemma fired_mono:
  assumes "fired n e E = Some xs" and "n \<le> m"
  shows "fired m e E = Some xs"
  using assms(2)
proof (induction m rule: dec_induct)
  case base
  show ?case by (rule assms(1))
next
  case (step k)
  from step.IH show ?case by (rule fired_Suc)
qed

subsection \<open>What a dispatch delivers\<close>

lemma fired_list_observers:
  "\<forall>x\<in>set ls. is_observer (snd x) \<Longrightarrow> fired_list n ls E = Some (observers ls)"
proof (induction ls)
  case Nil
  then show ?case by simp
next
  case (Cons x ls)
  then show ?case
    by (cases x rule: prod.exhaust, rename_tac h l, case_tac l) (auto simp: is_observer_def)
qed

text \<open>Only registered observers are ever called.\<close>

lemma fired_registered:
  "fired n e E = Some xs \<Longrightarrow> k \<in> set xs \<Longrightarrow> \<exists>e' h. (h, Observer k) \<in> set (E e')"
  and fired_list_registered:
  "fired_list n ls E = Some xs \<Longrightarrow> k \<in> set xs \<Longrightarrow>
     (\<exists>h. (h, Observer k) \<in> set ls) \<or> (\<exists>e' h. (h, Observer k) \<in> set (E e'))"
proof (induction n e E and n ls E arbitrary: xs and xs rule: fired_fired_list.induct)
  case (2 n e E)
  from "2.prems"(1) have "fired_list n (E e) E = Some xs" by simp
  with "2.IH" "2.prems"(2) show ?case by blast
next
  case (4 n h k' ls E)
  then show ?case by (cases "k = k'") force+
next
  case (5 n h e' ls E)
  then show ?case by (fastforce split: option.splits)
qed auto

subsection \<open>Registration and removal\<close>

lemma addEventListener_events [heap_simps]:
  "events (snd (addEventListener e l s)) =
     (events s)(e := events s e @ [(next_handle s, l)])"
  by (simp add: addEventListener_def)

lemma addEventListener_handle [heap_simps]:
  "fst (addEventListener e l s) = next_handle s"
  by (simp add: addEventListener_def)

lemma removeEventListener_events [heap_simps]:
  "distinct (map fst (events s e)) \<Longrightarrow>
   events (snd (removeEventListener e h s)) =
     (events s)(e := filter (\<lambda>x. fst x \<noteq> h) (events s e))"
  by (auto simp: removeEventListener_def splice_first_unique list_ex_iff filter_id_conv)

lemma addEventListener_ns_wf:
  assumes "ns_wf s" and "e < next_ev s"
  shows "ns_wf (snd (addEventListener e l s))"
proof -
  from assms(1) have "distinct (map fst (events s e @ [(next_handle s, l)]))"
    by (intro distinct_map_snoc_fresh) (auto simp: ns_wf_def)
  with assms show ?thesis
    by (auto simp: ns_wf_def addEventListener_def less_SucI)
qed

lemma removeEventListener_ns_wf:
  assumes "ns_wf s"
  shows "ns_wf (snd (removeEventListener e h s))"
proof -
  from assms have d: "distinct (map fst (events s e))" by (simp add: ns_wf_def)
  from assms have b: "\<And>e' x. x \<in> set (events s e') \<Longrightarrow> fst x < next_handle s"
    by (simp add: ns_wf_def)
  have "next_ev (snd (removeEventListener e h s)) = next_ev s"
    and "next_handle (snd (removeEventListener e h s)) = next_handle s"
    by (simp_all add: removeEventListener_def)
  with assms show ?thesis
    by (auto simp: ns_wf_def removeEventListener_events [OF d] dest: b)
qed

lemma raiseEvent_Some_state:
  "raiseEvent n e s = Some s' \<Longrightarrow> \<exists>xs. s' = s\<lparr>log := log s @ xs\<rparr> \<and> fired n e (events s) = Some xs"
  by (auto simp: raiseEvent_fired)

end
