(* ===== verification/Property.thy ===== *)
theory Property
  imports Color Event
begin

text \<open>
  The property-node contract (spec section 4.1) for the colour-valued
  sub-properties a material slot can hold, and the helpers of
  \<open>DataSources/Property.js\<close> the arrow material calls (neither file is
  under \<open>src/\<close>; both are modelled from the spec).  The catalog of concrete
  property kinds is out of scope; two kinds stand for it: a
  \<open>ConstantProperty\<close> (constant, possibly holding \<open>undefined\<close>) and a
  \<open>TimeVarying\<close> colour given by samples (never constant).  Every node owns
  its \<open>definitionChanged\<close> event.  \<open>pstate\<close> is the heap the helpers read:
  colour objects, notifiers and property nodes; the arrow material's heap
  extends it.
\<close>

datatype cprop =
    ConstantProperty (const_value: "color option") (cprop_ev: evid)
  | TimeVarying (samples: "(time \<times> color) list") (cprop_ev: evid)

record pstate =
  ch :: color_heap
  ns :: notifier_state
  cprops :: "addr \<rightharpoonup> cprop"
  next_cprop :: addr

text \<open>
  \<open>getValue(time)\<close> of a colour property, as a value: a constant yields its
  value, a time-varying colour the sample at \<open>time\<close> or \<open>undefined\<close>.
\<close>

definition cprop_value :: "'a pstate_scheme \<Rightarrow> addr \<Rightarrow> time \<Rightarrow> color option" where
  "cprop_value w p t =
     (case cprops w p of
        Some (ConstantProperty v _) \<Rightarrow> v
      | Some (TimeVarying s _) \<Rightarrow> map_of s t
      | None \<Rightarrow> None)"

text \<open>
  \<open>node.equals(other)\<close>: the same node, or a node of the same kind with an
  equal definition (\<open>Color.equals\<close> compares components).
\<close>

definition cprop_equals :: "'a pstate_scheme \<Rightarrow> addr \<Rightarrow> addr option \<Rightarrow> bool" where
  "cprop_equals w p other =
     (other = Some p \<or>
      (case (cprops w p, Option.bind other (cprops w)) of
         (Some (ConstantProperty v _), Some (ConstantProperty v' _)) \<Rightarrow> v = v'
       | (Some (TimeVarying s _), Some (TimeVarying s' _)) \<Rightarrow> s = s'
       | _ \<Rightarrow> False))"

text \<open>
  \<open>Property.getValueOrClonedDefault(property, time, valueDefault, result)\<close>:
  when the property is defined and yields a value at \<open>time\<close>, the node's
  \<open>getValue(time, result)\<close> copies it into \<open>result\<close> (a new object when
  there is none); otherwise \<open>valueDefault.clone()\<close> yields a new copy of the
  default.  The caller receives the address of the object returned.
\<close>

definition getValueOrClonedDefault ::
  "addr option \<Rightarrow> time \<Rightarrow> color \<Rightarrow> caddr option \<Rightarrow> 'a pstate_scheme \<Rightarrow> caddr \<times> 'a pstate_scheme" where
  "getValueOrClonedDefault p t dflt result w =
     (case Option.bind p (\<lambda>a. cprop_value w a t) of
        Some c \<Rightarrow> (case color_clone c result (ch w) of (r, h) \<Rightarrow> (r, w\<lparr>ch := h\<rparr>))
      | None \<Rightarrow> (case color_clone dflt None (ch w) of (r, h) \<Rightarrow> (r, w\<lparr>ch := h\<rparr>)))"

text \<open>Allocation discipline of the property heap.\<close>

definition pstate_wf :: "'a pstate_scheme \<Rightarrow> bool" where
  "pstate_wf w \<longleftrightarrow>
     color_heap_wf (ch w) \<and> ns_wf (ns w) \<and>
     (\<forall>p\<in>dom (cprops w). p < next_cprop w) \<and>
     (\<forall>p n. cprops w p = Some n \<longrightarrow> cprop_ev n < next_ev (ns w))"

subsection \<open>Equality of colour properties\<close>

lemma cprop_equals_refl [simp]: "cprop_equals w p (Some p)"
  by (simp add: cprop_equals_def)

lemma cprop_equals_None [simp]: "\<not> cprop_equals w p None"
  by (simp add: cprop_equals_def split: option.split cprop.split)

lemma cprop_equals_sym:
  "cprop_equals w p (Some q) \<longleftrightarrow> cprop_equals w q (Some p)"
  by (auto simp: cprop_equals_def split: option.splits cprop.splits)

lemma cprop_equals_trans:
  "cprop_equals w p (Some q) \<Longrightarrow> cprop_equals w q (Some r) \<Longrightarrow> cprop_equals w p (Some r)"
  by (auto simp: cprop_equals_def split: option.splits cprop.splits)

text \<open>Equal colour properties yield equal values at every time.\<close>

lemma cprop_equals_value:
  "cprop_equals w p (Some q) \<Longrightarrow> cprop_value w p t = cprop_value w q t"
  by (auto simp: cprop_equals_def cprop_value_def split: option.splits cprop.splits)

subsection \<open>Value resolution\<close>

abbreviation slot_value :: "'a pstate_scheme \<Rightarrow> addr option \<Rightarrow> time \<Rightarrow> color option" where
  "slot_value w p t \<equiv> Option.bind p (\<lambda>a. cprop_value w a t)"

lemma getValueOrClonedDefault_value [heap_simps]:
  "colors (ch (snd (getValueOrClonedDefault p t d r w))) (fst (getValueOrClonedDefault p t d r w)) =
     Some (case slot_value w p t of Some c \<Rightarrow> c | None \<Rightarrow> d)"
  by (simp add: getValueOrClonedDefault_def case_prod_beta color_clone_value split: option.split)

lemma getValueOrClonedDefault_addr:
  "fst (getValueOrClonedDefault p t d r w) =
     (case slot_value w p t of Some c \<Rightarrow> (case r of Some r' \<Rightarrow> r' | None \<Rightarrow> next_color (ch w))
      | None \<Rightarrow> next_color (ch w))"
  by (simp add: getValueOrClonedDefault_def case_prod_beta color_clone_addr split: option.split)

lemma getValueOrClonedDefault_frame [heap_simps]:
  "snd (getValueOrClonedDefault p t d r w) = w\<lparr>ch := snd (color_clone (case slot_value w p t of Some c \<Rightarrow> c | None \<Rightarrow> d)
       (case slot_value w p t of Some c \<Rightarrow> r | None \<Rightarrow> None) (ch w))\<rparr>"
  by (simp add: getValueOrClonedDefault_def case_prod_beta split: option.split)

lemma getValueOrClonedDefault_next_color:
  "next_color (ch (snd (getValueOrClonedDefault p t d res w))) =
     (if slot_value w p t \<noteq> None \<and> res \<noteq> None then next_color (ch w) else Suc (next_color (ch w)))"
  by (auto simp: getValueOrClonedDefault_def split: option.splits prod.splits)

end
