(* ===== verification/ArrowMaterial.thy ===== *)
theory ArrowMaterial
  imports Property
begin

text \<open>
  \<open>src/Source/DataSources/PolylineArrowMaterialProperty.js\<close>.  An instance
  is the record \<open>polyline_arrow\<close> of its three private fields
  (\<open>_definitionChanged\<close>, \<open>_color\<close>, \<open>_colorSubscription\<close>), stored in the
  heap \<open>world\<close> at an address, so that \<open>this === other\<close> is a comparison of
  addresses.  The \<open>color\<close> accessor is the one \<open>createPropertyDescriptor("color")\<close>
  installs (line 57); its setter is \<open>set_color\<close>, with the behaviour spec
  section 4.3 states.  Result objects of \<open>getValue\<close> (\<open>{}\<close> with a \<open>color\<close>
  key) live in the heap \<open>bags\<close>.  Dispatch of notifications is given the
  fuel \<open>dispatch_fuel\<close>, which the invariant \<open>arrow_wf\<close> makes enough.
\<close>

record polyline_arrow =
  p_definitionChanged :: evid
  p_color :: "addr option"
  p_colorSubscription :: "(evid \<times> handle) option"

record material_bag =
  bag_color :: "caddr option"

record world = pstate +
  arrows :: "addr \<rightharpoonup> polyline_arrow"
  next_arrow :: addr
  bags :: "addr \<rightharpoonup> material_bag"
  next_bag :: addr

text \<open>
  What can be assigned to the \<open>color\<close> slot: \<open>undefined\<close>, a property node
  (stored as it is), or a literal colour (wrapped into a new
  \<open>ConstantProperty\<close> by the descriptor's factory).
\<close>

datatype color_input = NoColor | PropertyValue addr | ColorValue color

text \<open>A reference to some property object, the argument \<open>other\<close> of \<open>equals\<close>.\<close>

datatype pref = ColorRef addr | ArrowRef addr

text \<open>
  Nesting depth of dispatch: a sub-property's event forwards to the arrow's
  event, whose registrations are host observers.
\<close>

definition dispatch_fuel :: nat where
  "dispatch_fuel = 2"

subsection \<open>Construction\<close>

text \<open>Lines 16--18: a new \<open>Event\<close>, and no colour and no subscription.\<close>

definition arrow_init :: "world \<Rightarrow> addr \<times> world" where
  "arrow_init w =
     (next_arrow w,
      w\<lparr>ns := (ns w)\<lparr>next_ev := Suc (next_ev (ns w))\<rparr>,
        arrows := (arrows w)(next_arrow w \<mapsto>
          \<lparr>p_definitionChanged = next_ev (ns w), p_color = None, p_colorSubscription = None\<rparr>),
        next_arrow := Suc (next_arrow w)\<rparr>)"

subsection \<open>The \<open>color\<close> accessor (line 57)\<close>

definition get_color :: "polyline_arrow \<Rightarrow> addr option" where
  "get_color pa = p_color pa"

text \<open>
  The setter, in the phases of spec section 4.3.  \<open>wrap_color\<close> is the
  descriptor's factory: a literal colour is wrapped into a new
  \<open>ConstantProperty\<close> with its own event, a property node is kept as it is.
\<close>

definition wrap_color :: "color_input \<Rightarrow> world \<Rightarrow> addr option \<times> world" where
  "wrap_color v w =
     (case v of
        NoColor \<Rightarrow> (None, w)
      | PropertyValue p \<Rightarrow> (Some p, w)
      | ColorValue c \<Rightarrow>
          (Some (next_cprop w),
           w\<lparr>ns := (ns w)\<lparr>next_ev := Suc (next_ev (ns w))\<rparr>,
             cprops := (cprops w)(next_cprop w \<mapsto> ConstantProperty (Some c) (next_ev (ns w))),
             next_cprop := Suc (next_cprop w)\<rparr>))"

text \<open>Calling the stored subscription removes the forwarding registration.\<close>

definition unsubscribe_color :: "polyline_arrow \<Rightarrow> world \<Rightarrow> world" where
  "unsubscribe_color pa w =
     (case p_colorSubscription pa of
        None \<Rightarrow> w
      | Some (e, h) \<Rightarrow> w\<lparr>ns := snd (removeEventListener e h (ns w))\<rparr>)"

text \<open>
  Store the new value; when it is a node with a \<open>definitionChanged\<close> event,
  register the callback that re-raises this instance's event and keep the
  subscription.
\<close>

definition subscribe_color :: "addr \<Rightarrow> polyline_arrow \<Rightarrow> addr option \<Rightarrow> world \<Rightarrow> world" where
  "subscribe_color a pa nv w =
     (case Option.bind nv (cprops w) of
        None \<Rightarrow> w\<lparr>arrows := (arrows w)(a \<mapsto> pa\<lparr>p_color := nv, p_colorSubscription := None\<rparr>)\<rparr>
      | Some n \<Rightarrow>
          (case addEventListener (cprop_ev n) (Forward (p_definitionChanged pa)) (ns w) of
             (h, s) \<Rightarrow>
               w\<lparr>ns := s,
                 arrows := (arrows w)(a \<mapsto> pa\<lparr>p_color := nv,
                             p_colorSubscription := Some (cprop_ev n, h)\<rparr>)\<rparr>))"

text \<open>
  The whole setter: assigning the node already held is a no-op; otherwise
  unsubscribe, store and subscribe, and raise the instance's own event once.
\<close>

definition set_color :: "addr \<Rightarrow> color_input \<Rightarrow> world \<Rightarrow> world option" where
  "set_color a v w =
     (case arrows w a of
        None \<Rightarrow> None
      | Some pa \<Rightarrow>
          (case wrap_color v w of
             (nv, w1) \<Rightarrow>
               if nv = p_color pa then Some w1
               else
                 let w2 = subscribe_color a pa nv (unsubscribe_color pa w1)
                 in map_option (\<lambda>s. w2\<lparr>ns := s\<rparr>)
                      (raiseEvent dispatch_fuel (p_definitionChanged pa) (ns w2))))"

text \<open>The constructor, lines 15--21: initialise, then assign through the setter.\<close>

definition PolylineArrowMaterialProperty :: "color_input \<Rightarrow> world \<Rightarrow> (addr \<times> world) option" where
  "PolylineArrowMaterialProperty c w =
     (case arrow_init w of (a, w1) \<Rightarrow> map_option (Pair a) (set_color a c w1))"

subsection \<open>Queries\<close>

text \<open>Lines 32--36: \<open>Property.isConstant(this._color)\<close>, that is
  \<open>!defined(p) || p.isConstant\<close>.\<close>

definition isConstant :: "polyline_arrow \<Rightarrow> world \<Rightarrow> bool" where
  "isConstant pa w =
     (case p_color pa of
        None \<Rightarrow> True
      | Some p \<Rightarrow> (case cprops w p of Some (TimeVarying _ _) \<Rightarrow> False | _ \<Rightarrow> True))"

text \<open>Lines 46--50.\<close>

definition definitionChanged :: "polyline_arrow \<Rightarrow> evid" where
  "definitionChanged pa = p_definitionChanged pa"

text \<open>Lines 66--68.\<close>

definition getType :: "time \<Rightarrow> string" where
  "getType t = ''PolylineArrow''"

text \<open>Lines 78--80: a result object is allocated when none is supplied.\<close>

definition getValue_result :: "addr option \<Rightarrow> world \<Rightarrow> addr \<times> world" where
  "getValue_result r w =
     (case r of
        Some b \<Rightarrow> (b, w)
      | None \<Rightarrow> (next_bag w, w\<lparr>bags := (bags w)(next_bag w \<mapsto> \<lparr>bag_color = None\<rparr>),
                               next_bag := Suc (next_bag w)\<rparr>))"

text \<open>Lines 77--88.\<close>

definition getValue :: "polyline_arrow \<Rightarrow> time \<Rightarrow> addr option \<Rightarrow> world \<Rightarrow> addr \<times> world" where
  "getValue pa t r w =
     (case getValue_result r w of
        (b, w1) \<Rightarrow>
          (case getValueOrClonedDefault (p_color pa) t color_WHITE
                  (Option.bind (bags w1 b) bag_color) w1 of
             (c, w2) \<Rightarrow>
               (b, w2\<lparr>bags := (bags w2)(b \<mapsto>
                      (case bags w2 b of Some bg \<Rightarrow> bg | None \<Rightarrow> \<lparr>bag_color = None\<rparr>)
                        \<lparr>bag_color := Some c\<rparr>)\<rparr>)))"

text \<open>Lines 97--103, with \<open>Property.equals(l, r) = l === r || (defined(l) && l.equals(r))\<close>.\<close>

definition equals :: "world \<Rightarrow> addr \<Rightarrow> pref option \<Rightarrow> bool" where
  "equals w a other =
     (other = Some (ArrowRef a) \<or>
      (case (arrows w a, other) of
         (Some pa, Some (ArrowRef b)) \<Rightarrow>
           (case arrows w b of
              Some pb \<Rightarrow>
                p_color pa = p_color pb \<or>
                (case p_color pa of None \<Rightarrow> False | Some p \<Rightarrow> cprop_equals w p (p_color pb))
            | None \<Rightarrow> False)
       | _ \<Rightarrow> False))"

subsection \<open>The invariant\<close>

text \<open>
  Allocation discipline: every object lies below its heap's next free
  address, and every event an object owns has been allocated.
\<close>

definition heap_bounded :: "world \<Rightarrow> bool" where
  "heap_bounded w \<longleftrightarrow>
     pstate_wf w \<and>
     (\<forall>a\<in>dom (arrows w). a < next_arrow w) \<and>
     (\<forall>b\<in>dom (bags w). b < next_bag w) \<and>
     (\<forall>b bg c. bags w b = Some bg \<longrightarrow> bag_color bg = Some c \<longrightarrow> c < next_color (ch w)) \<and>
     (\<forall>a pa. arrows w a = Some pa \<longrightarrow> p_definitionChanged pa < next_ev (ns w))"

text \<open>Each \<open>new Event()\<close> belongs to one object: arrows and colour
  properties own pairwise distinct events.\<close>

definition events_owned :: "world \<Rightarrow> bool" where
  "events_owned w \<longleftrightarrow>
     (\<forall>a b pa pb. arrows w a = Some pa \<longrightarrow> arrows w b = Some pb \<longrightarrow>
        p_definitionChanged pa = p_definitionChanged pb \<longrightarrow> a = b) \<and>
     (\<forall>a pa p n. arrows w a = Some pa \<longrightarrow> cprops w p = Some n \<longrightarrow>
        p_definitionChanged pa \<noteq> cprop_ev n) \<and>
     (\<forall>p q n m. cprops w p = Some n \<longrightarrow> cprops w q = Some m \<longrightarrow>
        cprop_ev n = cprop_ev m \<longrightarrow> p = q)"

text \<open>Every forwarding callback re-raises the event of some arrow.\<close>

definition forwards_ok :: "world \<Rightarrow> bool" where
  "forwards_ok w \<longleftrightarrow>
     (\<forall>e h e'. (h, Forward e') \<in> set (events (ns w) e) \<longrightarrow>
        (\<exists>a pa. arrows w a = Some pa \<and> p_definitionChanged pa = e'))"

text \<open>An arrow's own event has host observers only.\<close>

definition observers_only :: "world \<Rightarrow> polyline_arrow \<Rightarrow> bool" where
  "observers_only w pa \<longleftrightarrow> (\<forall>x\<in>set (events (ns w) (p_definitionChanged pa)). is_observer (snd x))"

text \<open>A non-empty slot holds an allocated node and a subscription to that node's event.\<close>

definition slot_ok :: "world \<Rightarrow> polyline_arrow \<Rightarrow> bool" where
  "slot_ok w pa \<longleftrightarrow>
     (p_color pa = None \<longrightarrow> p_colorSubscription pa = None) \<and>
     (\<forall>p. p_color pa = Some p \<longrightarrow>
        (\<exists>n. cprops w p = Some n \<and> map_option fst (p_colorSubscription pa) = Some (cprop_ev n)))"

text \<open>
  Exactly one active subscription per non-empty slot, and none otherwise:
  the forwarding registrations for the arrow's event are exactly the one its
  subscription names.
\<close>

definition subscription_exact :: "world \<Rightarrow> polyline_arrow \<Rightarrow> bool" where
  "subscription_exact w pa \<longleftrightarrow>
     (\<forall>e. filter (\<lambda>x. snd x = Forward (p_definitionChanged pa)) (events (ns w) e) =
        (case p_colorSubscription pa of
           None \<Rightarrow> []
         | Some (e', h) \<Rightarrow> if e = e' then [(h, Forward (p_definitionChanged pa))] else []))"

definition no_forwards :: "world \<Rightarrow> polyline_arrow \<Rightarrow> bool" where
  "no_forwards w pa \<longleftrightarrow>
     (\<forall>e. \<forall>x\<in>set (events (ns w) e). snd x \<noteq> Forward (p_definitionChanged pa))"

text \<open>
  The invariant with a set \<open>D\<close> of arrows in the middle of a slot
  assignment: those are detached (no registration forwards to them), all
  others are wired exactly.  \<open>arrow_wf\<close> is the invariant between operations.
\<close>

definition arrow_inv :: "addr set \<Rightarrow> world \<Rightarrow> bool" where
  "arrow_inv D w \<longleftrightarrow>
     heap_bounded w \<and> events_owned w \<and> forwards_ok w \<and>
     (\<forall>a pa. arrows w a = Some pa \<longrightarrow>
        observers_only w pa \<and>
        (a \<in> D \<longrightarrow> no_forwards w pa) \<and>
        (a \<notin> D \<longrightarrow> slot_ok w pa \<and> subscription_exact w pa))"

definition arrow_wf :: "world \<Rightarrow> bool" where
  "arrow_wf w \<longleftrightarrow> arrow_inv {} w"

text \<open>What the caller of the setter must supply: \<open>undefined\<close>, a literal, or an allocated node.\<close>

definition input_ok :: "world \<Rightarrow> color_input \<Rightarrow> bool" where
  "input_ok w v \<longleftrightarrow> (case v of PropertyValue p \<Rightarrow> p \<in> dom (cprops w) | _ \<Rightarrow> True)"

text \<open>The empty heap the host starts from.\<close>

definition empty_world :: world where
  "empty_world =
     \<lparr>ch = \<lparr>colors = Map.empty, next_color = 0\<rparr>,
      ns = \<lparr>events = (\<lambda>_. []), next_ev = 0, next_handle = 0, log = []\<rparr>,
      cprops = Map.empty, next_cprop = 0,
      arrows = Map.empty, next_arrow = 0,
      bags = Map.empty, next_bag = 0\<rparr>"


text \<open>
  The host's side of the notifier: \<open>definitionChanged.addEventListener(listener)\<close>
  with a host callback, and the call of the removal it returned.
\<close>

definition observe :: "evid \<Rightarrow> nat \<Rightarrow> world \<Rightarrow> handle \<times> world" where
  "observe e k w = (case addEventListener e (Observer k) (ns w) of (h, s) \<Rightarrow> (h, w\<lparr>ns := s\<rparr>))"

definition unobserve :: "evid \<Rightarrow> handle \<Rightarrow> world \<Rightarrow> world" where
  "unobserve e h w = w\<lparr>ns := snd (removeEventListener e h (ns w))\<rparr>"

text \<open>What a caller reads from \<open>result.color\<close>: the colour object the key refers to.\<close>

definition read_color :: "world \<Rightarrow> addr \<Rightarrow> color option" where
  "read_color w b = (case bags w b of None \<Rightarrow> None
     | Some bg \<Rightarrow> (case bag_color bg of None \<Rightarrow> None | Some c \<Rightarrow> colors (ch w) c))"

text \<open>An assignment that the setter treats as identical to the current value.\<close>

definition same_value :: "polyline_arrow \<Rightarrow> color_input \<Rightarrow> bool" where
  "same_value pa v \<longleftrightarrow>
     (case v of NoColor \<Rightarrow> p_color pa = None
      | PropertyValue p \<Rightarrow> p_color pa = Some p
      | ColorValue c \<Rightarrow> False)"

subsection \<open>The setter keeps the invariant\<close>

lemmas inv_defs = arrow_inv_def heap_bounded_def pstate_wf_def events_owned_def
  forwards_ok_def observers_only_def slot_ok_def subscription_exact_def no_forwards_def

lemma arrow_inv_log [simp]:
  "arrow_inv D (w\<lparr>ns := (ns w)\<lparr>log := l\<rparr>\<rparr>) = arrow_inv D w"
  by (simp add: inv_defs ns_wf_def)

lemma wrap_color_frame:
  "wrap_color v w = (nv, w1) \<Longrightarrow>
   arrows w1 = arrows w \<and> events (ns w1) = events (ns w) \<and> log (ns w1) = log (ns w) \<and>
   ch w1 = ch w \<and> bags w1 = bags w"
  by (auto simp: wrap_color_def split: color_input.splits)

lemma wrap_color_valid:
  "wrap_color v w = (nv, w1) \<Longrightarrow> input_ok w v \<Longrightarrow> nv = None \<or> (\<exists>p\<in>dom (cprops w1). nv = Some p)"
  by (auto simp: wrap_color_def input_ok_def split: color_input.splits)


lemma wrap_color_inv:
  assumes inv: "arrow_inv D w" and wr: "wrap_color v w = (nv, w1)"
  shows "arrow_inv D w1"
proof (cases v)
  case (ColorValue c)
  from inv have fresh_p: "cprops w (next_cprop w) = None"
    by (auto simp: inv_defs)
  from inv have arr_e: "\<And>a pa. arrows w a = Some pa \<Longrightarrow> p_definitionChanged pa < next_ev (ns w)"
    by (auto simp: inv_defs)
  from wr ColorValue have w1: "w1 = w\<lparr>ns := (ns w)\<lparr>next_ev := Suc (next_ev (ns w))\<rparr>,
             cprops := (cprops w)(next_cprop w \<mapsto> ConstantProperty (Some c) (next_ev (ns w))),
             next_cprop := Suc (next_cprop w)\<rparr>"
    by (simp add: wrap_color_def)
  have "slot_ok w1 pa" if "slot_ok w pa" for pa
    using that fresh_p by (auto simp: slot_ok_def w1)
  with inv arr_e show ?thesis
    unfolding w1 by (fastforce simp: inv_defs ns_wf_def less_SucI)
qed (use wr inv in \<open>auto simp: wrap_color_def\<close>)


lemma unsubscribe_color_frame:
  "arrows (unsubscribe_color pa w) = arrows w \<and> cprops (unsubscribe_color pa w) = cprops w \<and>
   ch (unsubscribe_color pa w) = ch w \<and> bags (unsubscribe_color pa w) = bags w \<and>
   next_cprop (unsubscribe_color pa w) = next_cprop w \<and>
   next_arrow (unsubscribe_color pa w) = next_arrow w \<and> next_bag (unsubscribe_color pa w) = next_bag w \<and>
   next_ev (ns (unsubscribe_color pa w)) = next_ev (ns w) \<and>
   next_handle (ns (unsubscribe_color pa w)) = next_handle (ns w) \<and>
   log (ns (unsubscribe_color pa w)) = log (ns w)"
  by (auto simp: unsubscribe_color_def removeEventListener_def split: option.split)
lemma subscription_exact_None:
  "subscription_exact w pa \<Longrightarrow> p_colorSubscription pa = None \<Longrightarrow> no_forwards w pa"
  by (force simp: subscription_exact_def no_forwards_def filter_empty_conv)
lemma unsubscribe_color_inv:
  assumes inv: "arrow_inv D w" and a: "arrows w a = Some pa" and nD: "a \<notin> D"
  shows "arrow_inv (insert a D) (unsubscribe_color pa w)"
proof -
  let ?ea = "p_definitionChanged pa"
  let ?w' = "unsubscribe_color pa w"
  let ?E = "events (ns w)"
  from inv have hb: "heap_bounded w" and own: "events_owned w" and fw: "forwards_ok w"
    and arr: "\<And>b pb. arrows w b = Some pb \<Longrightarrow> observers_only w pb \<and>
        (b \<in> D \<longrightarrow> no_forwards w pb) \<and> (b \<notin> D \<longrightarrow> slot_ok w pb \<and> subscription_exact w pb)"
    by (simp_all add: arrow_inv_def)
  have fr: "arrows ?w' = arrows w" "cprops ?w' = cprops w"
    using unsubscribe_color_frame [of pa w] by simp_all
  have sub: "set (events (ns ?w') e') \<subseteq> set (?E e')" for e'
    by (auto simp: unsubscribe_color_def removeEventListener_def split: option.split
             dest: set_takeWhileD set_dropWhileD)
  have nf_others: "no_forwards ?w' pa \<and> (\<forall>b pb. arrows w b = Some pb \<longrightarrow> b \<noteq> a \<longrightarrow>
      subscription_exact w pb \<longrightarrow> subscription_exact ?w' pb)"
  proof (cases "p_colorSubscription pa")
    case None
    from arr [OF a] nD have "subscription_exact w pa" by simp
    from this None have "no_forwards w pa" by (rule subscription_exact_None)
    moreover have "?w' = w" using None by (simp add: unsubscribe_color_def)
    ultimately show ?thesis by simp
  next
    case (Some eh)
    then obtain e h where eh: "p_colorSubscription pa = Some (e, h)" by (cases eh) auto
    from hb have d: "distinct (map fst (?E e))"
      by (simp add: heap_bounded_def pstate_wf_def ns_wf_def)
    have ev: "events (ns ?w') = ?E(e := filter (\<lambda>x. fst x \<noteq> h) (?E e))"
      using eh d by (simp add: unsubscribe_color_def removeEventListener_events)
    from arr [OF a] nD eh have exact:
      "filter (\<lambda>x. snd x = Forward ?ea) (?E e') = (if e' = e then [(h, Forward ?ea)] else [])" for e'
      by (simp add: subscription_exact_def)
    from exact [of e] have "(h, Forward ?ea) \<in> set (filter (\<lambda>x. snd x = Forward ?ea) (?E e))"
      by simp
    then have mem: "(h, Forward ?ea) \<in> set (?E e)" by simp
    have key: "x = (h, Forward ?ea)" if "x \<in> set (?E e)" "fst x = h" for x
      using d mem that eq_key_imp_eq_value by (metis prod.collapse)
    have "no_forwards ?w' pa"
    proof (unfold no_forwards_def, intro allI ballI)
      fix e' x assume x: "x \<in> set (events (ns ?w') e')"
      show "snd x \<noteq> Forward ?ea"
      proof
        assume fw: "snd x = Forward ?ea"
        from x sub fw have "x \<in> set (filter (\<lambda>x. snd x = Forward ?ea) (?E e'))" by auto
        with exact [of e'] have "e' = e" and "x = (h, Forward ?ea)" by (auto split: if_splits)
        with x show False by (simp add: ev)
      qed
    qed
    moreover have "subscription_exact ?w' pb"
      if b: "arrows w b = Some pb" "b \<noteq> a" "subscription_exact w pb" for b pb
    proof -
      from own a b have ne: "p_definitionChanged pb \<noteq> ?ea" by (auto simp: events_owned_def)
      have "fst x \<noteq> h" if "x \<in> set (?E e)" "snd x = Forward (p_definitionChanged pb)" for x
        using key [OF that(1)] that(2) ne by (cases x) auto
      then have "filter (\<lambda>x. snd x = Forward (p_definitionChanged pb)) (filter (\<lambda>x. fst x \<noteq> h) (?E e)) =
            filter (\<lambda>x. snd x = Forward (p_definitionChanged pb)) (?E e)"
        by (auto simp: filter_filter intro!: filter_cong)
      with b(3) show ?thesis by (simp add: subscription_exact_def ev)
    qed
    ultimately show ?thesis by blast
  qed
  then have nf: "no_forwards ?w' pa"
    and others: "\<And>b pb. arrows w b = Some pb \<Longrightarrow> b \<noteq> a \<Longrightarrow>
      subscription_exact w pb \<Longrightarrow> subscription_exact ?w' pb"
    by blast+
  have "observers_only ?w' pb" if "observers_only w pb" for pb
    using that sub by (auto simp: observers_only_def)
  moreover have "no_forwards ?w' pb" if "no_forwards w pb" for pb
    using that sub by (fastforce simp: no_forwards_def)
  moreover have "forwards_ok ?w'"
    using fw sub unfolding forwards_ok_def fr by blast
  moreover have "heap_bounded ?w'"
  proof -
    have "ns_wf (ns ?w')"
      using hb by (cases "p_colorSubscription pa")
        (auto simp: unsubscribe_color_def heap_bounded_def pstate_wf_def removeEventListener_ns_wf)
    with hb show ?thesis
      using unsubscribe_color_frame [of pa w] by (simp add: heap_bounded_def pstate_wf_def)
  qed
  moreover have "events_owned ?w'"
    using own by (simp add: events_owned_def fr)
  moreover have "slot_ok ?w' pb" if "slot_ok w pb" for pb
    using that by (simp add: slot_ok_def fr)
  ultimately show ?thesis
    unfolding arrow_inv_def fr using arr nf others a by auto
qed

lemma events_owned_upd:
  assumes "events_owned w" and "arrows w a = Some pa"
    and "p_definitionChanged pa' = p_definitionChanged pa"
    and "cprops w' = cprops w" and "arrows w' = (arrows w)(a \<mapsto> pa')"
  shows "events_owned w'"
  using assms unfolding events_owned_def
  by (simp add: fun_upd_apply) (metis option.inject)


lemma forwards_ok_upd:
  assumes "forwards_ok w" and "arrows w a = Some pa"
    and "p_definitionChanged pa' = p_definitionChanged pa"
    and "arrows w' = (arrows w)(a \<mapsto> pa')"
    and "\<And>e h e'. (h, Forward e') \<in> set (events (ns w') e) \<Longrightarrow>
           (h, Forward e') \<in> set (events (ns w) e) \<or> e' = p_definitionChanged pa"
  shows "forwards_ok w'"
  unfolding forwards_ok_def
proof (intro allI impI)
  fix e h e' assume "(h, Forward e') \<in> set (events (ns w') e)"
  with assms(5) consider "(h, Forward e') \<in> set (events (ns w) e)" | "e' = p_definitionChanged pa"
    by blast
  then show "\<exists>b pb. arrows w' b = Some pb \<and> p_definitionChanged pb = e'"
  proof cases
    case 1
    with assms(1) obtain b pb where b: "arrows w b = Some pb" "p_definitionChanged pb = e'"
      unfolding forwards_ok_def by blast
    show ?thesis
    proof (cases "b = a")
      case True
      with b assms(2-4) show ?thesis by (intro exI [of _ a]) auto
    next
      case False
      with b assms(4) show ?thesis by auto
    qed
  next
    case 2
    with assms(3,4) show ?thesis by (intro exI [of _ a]) auto
  qed
qed

lemma arrow_inv_attach:
  assumes inv: "arrow_inv (insert a D) w" and a: "arrows w a = Some pa" and aD: "a \<notin> D"
    and arr': "arrows w' = (arrows w)(a \<mapsto> pa')"
    and ev': "p_definitionChanged pa' = p_definitionChanged pa"
    and same: "cprops w' = cprops w" "ch w' = ch w" "bags w' = bags w"
      "next_cprop w' = next_cprop w" "next_arrow w' = next_arrow w" "next_bag w' = next_bag w"
      "next_ev (ns w') = next_ev (ns w)"
    and nswf: "ns_wf (ns w')"
    and ok': "slot_ok w' pa'" "subscription_exact w' pa'"
    and obs: "\<And>b pb. arrows w b = Some pb \<Longrightarrow>
      events (ns w') (p_definitionChanged pb) = events (ns w) (p_definitionChanged pb)"
    and flt: "\<And>b pb e. arrows w b = Some pb \<Longrightarrow> b \<noteq> a \<Longrightarrow>
      filter (\<lambda>x. snd x = Forward (p_definitionChanged pb)) (events (ns w') e) =
      filter (\<lambda>x. snd x = Forward (p_definitionChanged pb)) (events (ns w) e)"
    and new: "\<And>e h e'. (h, Forward e') \<in> set (events (ns w') e) \<Longrightarrow>
      (h, Forward e') \<in> set (events (ns w) e) \<or> e' = p_definitionChanged pa"
  shows "arrow_inv D w'"
proof -
  from inv have hb: "heap_bounded w" and own: "events_owned w" and fw: "forwards_ok w"
    and arr: "\<And>b pb. arrows w b = Some pb \<Longrightarrow> observers_only w pb \<and>
        (b \<in> insert a D \<longrightarrow> no_forwards w pb) \<and>
        (b \<notin> insert a D \<longrightarrow> slot_ok w pb \<and> subscription_exact w pb)"
    by (simp_all add: arrow_inv_def)
  have "heap_bounded w'"
  proof -
    from a have "dom (arrows w') = dom (arrows w)" by (auto simp: arr')
    with hb nswf same a ev' show ?thesis
      by (auto simp: heap_bounded_def pstate_wf_def arr')
  qed
  moreover have "events_owned w'"
    using own a ev' same(1) arr' by (rule events_owned_upd)
  moreover have "forwards_ok w'"
    using fw a ev' arr' new by (rule forwards_ok_upd)
  moreover have "observers_only w' pb \<and> (b \<in> D \<longrightarrow> no_forwards w' pb) \<and>
      (b \<notin> D \<longrightarrow> slot_ok w' pb \<and> subscription_exact w' pb)"
    if b': "arrows w' b = Some pb" for b pb
  proof (cases "b = a")
    case True
    with b' arr' have pb: "pb = pa'" by simp
    from arr [OF a] obs [OF a] ev' have "observers_only w' pa'"
      by (simp add: observers_only_def)
    with pb True aD ok' show ?thesis by simp
  next
    case False
    with b' arr' have b: "arrows w b = Some pb" by simp
    from arr [OF b] obs [OF b] have "observers_only w' pb"
      by (simp add: observers_only_def)
    moreover have "no_forwards w' pb" if "b \<in> D"
    proof -
      from arr [OF b] that have nf: "no_forwards w pb" by simp
      show ?thesis
      proof (unfold no_forwards_def, intro allI ballI notI)
        fix e x assume x: "x \<in> set (events (ns w') e)" and fwd: "snd x = Forward (p_definitionChanged pb)"
        then have "x \<in> set (filter (\<lambda>x. snd x = Forward (p_definitionChanged pb)) (events (ns w') e))"
          by simp
        with flt [OF b False] have "x \<in> set (events (ns w) e)" by simp
        with nf fwd show False by (auto simp: no_forwards_def)
      qed
    qed
    moreover have "slot_ok w' pb \<and> subscription_exact w' pb" if "b \<notin> D"
      using arr [OF b] that False flt [OF b False]
      by (simp add: slot_ok_def subscription_exact_def same(1))
    ultimately show ?thesis by blast
  qed
  ultimately show ?thesis by (simp add: arrow_inv_def)
qed


lemma no_forwards_filter:
  "no_forwards w pa \<Longrightarrow> filter (\<lambda>x. snd x = Forward (p_definitionChanged pa)) (events (ns w) e) = []"
  by (simp add: no_forwards_def filter_empty_conv)

lemma subscribe_color_inv:
  assumes inv: "arrow_inv (insert a D) w" and a: "arrows w a = Some pa" and aD: "a \<notin> D"
    and nv: "nv = None \<or> (\<exists>p\<in>dom (cprops w). nv = Some p)"
  shows "arrow_inv D (subscribe_color a pa nv w)"
proof -
  let ?ea = "p_definitionChanged pa"
  from inv a have nfa: "no_forwards w pa" by (simp add: arrow_inv_def)
  from inv have hb: "heap_bounded w" and own: "events_owned w" by (simp_all add: arrow_inv_def)
  show ?thesis
  proof (cases nv)
    case None
    let ?pa' = "pa\<lparr>p_color := None, p_colorSubscription := None\<rparr>"
    have w': "subscribe_color a pa nv w = w\<lparr>arrows := (arrows w)(a \<mapsto> ?pa')\<rparr>"
      by (simp add: subscribe_color_def None)
    show ?thesis
      unfolding w'
    proof (rule arrow_inv_attach [OF inv a aD])
      show "subscription_exact (w\<lparr>arrows := (arrows w)(a \<mapsto> ?pa')\<rparr>) ?pa'"
        using no_forwards_filter [OF nfa] by (simp add: subscription_exact_def)
      show "ns_wf (ns (w\<lparr>arrows := (arrows w)(a \<mapsto> ?pa')\<rparr>))"
        using hb by (simp add: heap_bounded_def pstate_wf_def)
    qed (simp_all add: slot_ok_def)
  next
    case (Some p)
    with nv obtain n where n: "cprops w p = Some n" by auto
    let ?e = "cprop_ev n" and ?h = "next_handle (ns w)"
    let ?pa' = "pa\<lparr>p_color := nv, p_colorSubscription := Some (?e, ?h)\<rparr>"
    let ?E' = "(events (ns w))(?e := events (ns w) ?e @ [(?h, Forward ?ea)])"
    let ?w' = "w\<lparr>ns := (ns w)\<lparr>events := ?E', next_handle := Suc ?h\<rparr>, arrows := (arrows w)(a \<mapsto> ?pa')\<rparr>"
    have w': "subscribe_color a pa nv w = ?w'"
      by (simp add: subscribe_color_def Some n addEventListener_def)
    from hb n have e_lt: "?e < next_ev (ns w)" by (auto simp: heap_bounded_def pstate_wf_def)
    from own n have own_c: "\<And>b pb. arrows w b = Some pb \<Longrightarrow> p_definitionChanged pb \<noteq> ?e"
      by (auto simp: events_owned_def)
    from own a have own_a: "\<And>b pb. arrows w b = Some pb \<Longrightarrow> b \<noteq> a \<Longrightarrow> p_definitionChanged pb \<noteq> ?ea"
      by (auto simp: events_owned_def)
    show ?thesis
      unfolding w'
    proof (rule arrow_inv_attach [OF inv a aD])
      show "ns_wf (ns ?w')"
        using hb e_lt addEventListener_ns_wf [of "ns w" ?e "Forward ?ea"]
        by (simp add: heap_bounded_def pstate_wf_def addEventListener_def)
      show "slot_ok ?w' ?pa'" using Some n by (simp add: slot_ok_def)
      show "subscription_exact ?w' ?pa'"
        using no_forwards_filter [OF nfa] by (simp add: subscription_exact_def)
      show "events (ns ?w') (p_definitionChanged pb) = events (ns w) (p_definitionChanged pb)"
        if "arrows w b = Some pb" for b pb
        using own_c [OF that] by simp
      show "filter (\<lambda>x. snd x = Forward (p_definitionChanged pb)) (events (ns ?w') e) =
          filter (\<lambda>x. snd x = Forward (p_definitionChanged pb)) (events (ns w) e)"
        if "arrows w b = Some pb" "b \<noteq> a" for b pb e
        using own_a [OF that] by simp
      show "(h, Forward e') \<in> set (events (ns w) e) \<or> e' = ?ea"
        if "(h, Forward e') \<in> set (events (ns ?w') e)" for e h e'
        using that by (auto split: if_splits)
    qed simp_all
  qed
qed


subsection \<open>Dispatch and the setter\<close>

lemma arrow_inv_ranked:
  assumes "arrow_inv D w"
  shows "ranked (\<lambda>e. if \<exists>a pa. arrows w a = Some pa \<and> p_definitionChanged pa = e then 0 else 1)
           (events (ns w))"
  unfolding ranked_def
proof (intro allI impI)
  fix e h e' assume fwd: "(h, Forward e') \<in> set (events (ns w) e)"
  from assms have fw: "forwards_ok w"
    and obs: "\<And>b pb. arrows w b = Some pb \<Longrightarrow> observers_only w pb"
    by (simp_all add: arrow_inv_def)
  from fw fwd have "\<exists>a pa. arrows w a = Some pa \<and> p_definitionChanged pa = e'"
    by (simp add: forwards_ok_def)
  moreover have "\<not> (\<exists>a pa. arrows w a = Some pa \<and> p_definitionChanged pa = e)"
  proof
    assume "\<exists>a pa. arrows w a = Some pa \<and> p_definitionChanged pa = e"
    then obtain b pb where "arrows w b = Some pb" "p_definitionChanged pb = e" by blast
    with obs fwd show False by (fastforce simp: observers_only_def is_observer_def)
  qed
  ultimately show "(if \<exists>a pa. arrows w a = Some pa \<and> p_definitionChanged pa = e' then 0 else 1)
       < (if \<exists>a pa. arrows w a = Some pa \<and> p_definitionChanged pa = e then 0 else (1::nat))"
    by simp
qed

lemma arrow_inv_dispatch:
  assumes "arrow_inv D w"
  shows "\<exists>s. raiseEvent dispatch_fuel e (ns w) = Some s \<and> arrow_inv D (w\<lparr>ns := s\<rparr>)"
proof -
  from arrow_inv_ranked [OF assms] have "fired dispatch_fuel e (events (ns w)) \<noteq> None"
    by (rule fired_ranked_Some) (simp add: dispatch_fuel_def)
  then obtain xs where "fired dispatch_fuel e (events (ns w)) = Some xs" by blast
  with assms show ?thesis by (simp add: raiseEvent_fired)
qed

lemma unsubscribe_color_events_at:
  assumes inv: "arrow_inv D w" and a: "arrows w a = Some pa" and aD: "a \<notin> D"
    and b: "arrows w b = Some pb"
  shows "events (ns (unsubscribe_color pa w)) (p_definitionChanged pb) = events (ns w) (p_definitionChanged pb)"
proof (cases "p_colorSubscription pa")
  case None
  then show ?thesis by (simp add: unsubscribe_color_def)
next
  case (Some eh)
  then obtain e h where eh: "p_colorSubscription pa = Some (e, h)" by (cases eh) auto
  from inv a aD have "slot_ok w pa" by (simp add: arrow_inv_def)
  with eh obtain p n where "cprops w p = Some n" "e = cprop_ev n"
    by (cases "p_color pa") (auto simp: slot_ok_def)
  with inv b have "p_definitionChanged pb \<noteq> e" by (auto simp: arrow_inv_def events_owned_def)
  with eh show ?thesis by (simp add: unsubscribe_color_def removeEventListener_def)
qed

lemma subscribe_color_events_at:
  assumes inv: "arrow_inv D w" and b: "arrows w b = Some pb"
  shows "events (ns (subscribe_color a pa nv w)) (p_definitionChanged pb) = events (ns w) (p_definitionChanged pb)"
proof (cases "Option.bind nv (cprops w)")
  case None
  then show ?thesis by (simp add: subscribe_color_def)
next
  case (Some n)
  then obtain p where "cprops w p = Some n" by (cases nv) auto
  with inv b have "p_definitionChanged pb \<noteq> cprop_ev n" by (auto simp: arrow_inv_def events_owned_def)
  with Some show ?thesis by (simp add: subscribe_color_def addEventListener_def)
qed


lemma subscribe_color_log:
  "log (ns (subscribe_color a pa nv w)) = log (ns w)"
  by (auto simp: subscribe_color_def addEventListener_def split: option.split)

lemma wrap_color_same:
  assumes inv: "arrow_inv D w" and a: "arrows w a = Some pa" and aD: "a \<notin> D"
  shows "fst (wrap_color v w) = p_color pa \<longleftrightarrow> same_value pa v"
proof (cases v)
  case (ColorValue c)
  have "p_color pa \<noteq> Some (next_cprop w)"
  proof
    assume eq: "p_color pa = Some (next_cprop w)"
    from inv a aD have "slot_ok w pa" by (simp add: arrow_inv_def)
    with eq have "next_cprop w \<in> dom (cprops w)" by (auto simp: slot_ok_def)
    with inv show False by (auto simp: arrow_inv_def heap_bounded_def pstate_wf_def)
  qed
  with ColorValue show ?thesis by (auto simp: wrap_color_def same_value_def)
qed (auto simp: wrap_color_def same_value_def)

text \<open>The phases of a replacing assignment, and the state before the final raise.\<close>

lemma set_color_replace:
  assumes wf: "arrow_wf w" and a: "arrows w a = Some pa" and v: "input_ok w v"
    and new: "\<not> same_value pa v" and wr: "wrap_color v w = (nv, w1)"
  defines "w3 \<equiv> subscribe_color a pa nv (unsubscribe_color pa w1)"
  shows "arrow_wf w3"
    and "set_color a v w = map_option (\<lambda>s. w3\<lparr>ns := s\<rparr>) (raiseEvent dispatch_fuel (p_definitionChanged pa) (ns w3))"
    and "events (ns w3) (p_definitionChanged pa) = events (ns w) (p_definitionChanged pa)"
    and "log (ns w3) = log (ns w)"
proof -
  from wf have inv: "arrow_inv {} w" by (simp add: arrow_wf_def)
  from wrap_color_inv [OF inv wr] have inv1: "arrow_inv {} w1" .
  from wrap_color_frame [OF wr] a have a1: "arrows w1 a = Some pa" by simp
  have "fst (wrap_color v w) = p_color pa \<longleftrightarrow> same_value pa v"
    by (rule wrap_color_same [OF inv a]) simp
  with new wr have ne: "nv \<noteq> p_color pa" by simp
  from unsubscribe_color_inv [OF inv1 a1] have inv2: "arrow_inv {a} (unsubscribe_color pa w1)" by simp
  have a2: "arrows (unsubscribe_color pa w1) a = Some pa"
    and c2: "cprops (unsubscribe_color pa w1) = cprops w1"
    using unsubscribe_color_frame [of pa w1] a1 by simp_all
  from wrap_color_valid [OF wr v] c2
  have nvv: "nv = None \<or> (\<exists>p\<in>dom (cprops (unsubscribe_color pa w1)). nv = Some p)" by simp
  from subscribe_color_inv [of a "{}", OF _ a2 _ nvv] inv2
  show "arrow_wf w3" by (simp add: w3_def arrow_wf_def)
  show "set_color a v w = map_option (\<lambda>s. w3\<lparr>ns := s\<rparr>) (raiseEvent dispatch_fuel (p_definitionChanged pa) (ns w3))"
    using a wr ne by (simp add: set_color_def w3_def Let_def)
  show "events (ns w3) (p_definitionChanged pa) = events (ns w) (p_definitionChanged pa)"
    using subscribe_color_events_at [OF inv2 a2] unsubscribe_color_events_at [OF inv1 a1 _ a1]
      wrap_color_frame [OF wr]
    by (simp add: w3_def)
  show "log (ns w3) = log (ns w)"
    using wrap_color_frame [OF wr] unsubscribe_color_frame [of pa w1]
    by (simp add: w3_def subscribe_color_log)
qed

lemma set_color_keeps_wf:
  assumes wf: "arrow_wf w" and a: "arrows w a = Some pa" and v: "input_ok w v"
  shows "\<exists>w'. set_color a v w = Some w' \<and> arrow_wf w'"
proof (cases "same_value pa v")
  case True
  with a wf show ?thesis
    by (auto simp: set_color_def wrap_color_def same_value_def split: color_input.splits)
next
  case False
  obtain nv w1 where wr: "wrap_color v w = (nv, w1)" by fastforce
  note r = set_color_replace [OF wf a v False wr]
  from r(1) have "arrow_inv {} (subscribe_color a pa nv (unsubscribe_color pa w1))"
    by (simp add: arrow_wf_def)
  from arrow_inv_dispatch [OF this, of "p_definitionChanged pa"] obtain s where
    "raiseEvent dispatch_fuel (p_definitionChanged pa)
       (ns (subscribe_color a pa nv (unsubscribe_color pa w1))) = Some s"
    and "arrow_inv {} ((subscribe_color a pa nv (unsubscribe_color pa w1))\<lparr>ns := s\<rparr>)"
    by blast
  with r(2) show ?thesis by (simp add: arrow_wf_def)
qed

text \<open>
  C2. Replacing the slot with a value other than the one held raises the
  instance's \<open>definitionChanged\<close> exactly once: the host observers
  registered on it are each called once, in registration order, and
  nothing else is notified.
\<close>

theorem set_color_notifies_once:
  assumes wf: "arrow_wf w" and a: "arrows w a = Some pa" and v: "input_ok w v"
    and new: "\<not> same_value pa v" and res: "set_color a v w = Some w'"
  shows "log (ns w') = log (ns w) @ observers (events (ns w) (p_definitionChanged pa))"
proof -
  obtain nv w1 where wr: "wrap_color v w = (nv, w1)" by fastforce
  define w3 where "w3 = subscribe_color a pa nv (unsubscribe_color pa w1)"
  note r = set_color_replace [OF wf a v new wr, folded w3_def]
  from wf a have "observers_only w pa" by (simp add: arrow_wf_def arrow_inv_def)
  with r(3) have "\<forall>x\<in>set (events (ns w3) (p_definitionChanged pa)). is_observer (snd x)"
    by (simp add: observers_only_def)
  then have "fired dispatch_fuel (p_definitionChanged pa) (events (ns w3)) =
      Some (observers (events (ns w) (p_definitionChanged pa)))"
    by (simp add: dispatch_fuel_def numeral_2_eq_2 fired_list_observers r(3))
  with res r(2) r(4) show ?thesis by (auto simp: raiseEvent_fired)
qed

text \<open>
  C3. Assigning the value the slot already holds (the identical node, or
  \<open>undefined\<close> to an empty slot) notifies nobody and leaves the slot as it
  was (spec section 8: replacing with the identical node fires zero).
\<close>

theorem set_color_same_noop:
  "arrows w a = Some pa \<Longrightarrow> same_value pa v \<Longrightarrow>
   \<exists>w' pa'. set_color a v w = Some w' \<and> log (ns w') = log (ns w) \<and>
     arrows w' a = Some pa' \<and> get_color pa' = get_color pa"
  by (auto simp: set_color_def wrap_color_def same_value_def split: color_input.splits)


subsection \<open>Queries\<close>

lemma getValue_effect:
  assumes gv: "getValue pa t r w = (b, w')"
  defines "rc \<equiv> Option.bind r (\<lambda>b. Option.bind (bags w b) bag_color)"
  defines "v \<equiv> slot_value w (p_color pa) t"
  defines "c \<equiv> (case v of Some _ \<Rightarrow> (case rc of Some x \<Rightarrow> x | None \<Rightarrow> next_color (ch w)) | None \<Rightarrow> next_color (ch w))"
  shows "b = (case r of Some b0 \<Rightarrow> b0 | None \<Rightarrow> next_bag w)"
    and "Option.bind (bags w' b) bag_color = Some c"
    and "colors (ch w') c = Some (case v of Some x \<Rightarrow> x | None \<Rightarrow> color_WHITE)"
    and "\<And>x. x \<noteq> c \<Longrightarrow> colors (ch w') x = colors (ch w) x"
    and "\<And>x. x \<noteq> b \<Longrightarrow> bags w' x = bags w x"
    and "ns w' = ns w" and "cprops w' = cprops w" and "arrows w' = arrows w"
    and "next_color (ch w) \<le> next_color (ch w')"
    and "next_bag w' = (case r of Some _ \<Rightarrow> next_bag w | None \<Rightarrow> Suc (next_bag w))"
    and "next_cprop w' = next_cprop w" and "next_arrow w' = next_arrow w"
    and "color_heap_wf (ch w) \<Longrightarrow> (\<And>x. rc = Some x \<Longrightarrow> x < next_color (ch w)) \<Longrightarrow>
         color_heap_wf (ch w') \<and> c < next_color (ch w')"
proof -
  obtain b1 w1 where r: "getValue_result r w = (b1, w1)" by fastforce
  obtain c1 w2 where g: "getValueOrClonedDefault (p_color pa) t color_WHITE
      (Option.bind (bags w1 b1) bag_color) w1 = (c1, w2)" by fastforce
  have gv': "getValue pa t r w = (b1, w2\<lparr>bags := (bags w2)(b1 \<mapsto>
      (case bags w2 b1 of Some bg \<Rightarrow> bg | None \<Rightarrow> \<lparr>bag_color = None\<rparr>)\<lparr>bag_color := Some c1\<rparr>)\<rparr>)"
    by (simp add: getValue_def r g)
  have w1: "cprops w1 = cprops w" "ch w1 = ch w" "ns w1 = ns w" "arrows w1 = arrows w"
    "b1 = (case r of Some b0 \<Rightarrow> b0 | None \<Rightarrow> next_bag w)"
    "\<And>x. x \<noteq> b1 \<Longrightarrow> bags w1 x = bags w x"
    using r by (auto simp: getValue_result_def split: option.splits)
  have rc1: "Option.bind (bags w1 b1) bag_color = rc"
    using r by (auto simp: getValue_result_def rc_def split: option.splits)
  have sv: "slot_value w1 (p_color pa) t = v"
    using w1(1) by (simp add: cprop_value_def v_def)
  have col: "colors (ch w2) c1 = Some (case v of Some x \<Rightarrow> x | None \<Rightarrow> color_WHITE)"
    using getValueOrClonedDefault_value [of "p_color pa" t color_WHITE "Option.bind (bags w1 b1) bag_color" w1] g sv
    by simp
  have c1: "c1 = c"
    using getValueOrClonedDefault_addr [of "p_color pa" t color_WHITE "Option.bind (bags w1 b1) bag_color" w1] g
    unfolding sv rc1 w1(2) by (simp add: c_def)
  define cv where "cv = (case v of Some c \<Rightarrow> c | None \<Rightarrow> color_WHITE)"
  define cr where "cr = (case v of Some c \<Rightarrow> rc | None \<Rightarrow> None)"
  have w2: "w2 = w1\<lparr>ch := snd (color_clone cv cr (ch w1))\<rparr>"
    using getValueOrClonedDefault_frame [of "p_color pa" t color_WHITE "Option.bind (bags w1 b1) bag_color" w1] g
    unfolding sv rc1 cv_def cr_def by simp
  have cl: "fst (color_clone cv cr (ch w1)) = c"
    by (simp add: color_clone_addr c_def cr_def w1(2) split: option.split)
  from gv [unfolded gv'] have bw: "b = b1" "w' = w2\<lparr>bags := (bags w2)(b1 \<mapsto>
      (case bags w2 b1 of Some bg \<Rightarrow> bg | None \<Rightarrow> \<lparr>bag_color = None\<rparr>)\<lparr>bag_color := Some c1\<rparr>)\<rparr>"
    by auto
  show "b = (case r of Some b0 \<Rightarrow> b0 | None \<Rightarrow> next_bag w)" using bw w1 by simp
  show "Option.bind (bags w' b) bag_color = Some c" using bw c1 by simp
  show "colors (ch w') c = Some (case v of Some x \<Rightarrow> x | None \<Rightarrow> color_WHITE)" using bw col c1 by simp
  show "colors (ch w') x = colors (ch w) x" if "x \<noteq> c" for x
  proof -
    from bw(2) w2 have "ch w' = snd (color_clone cv cr (ch w1))" by simp
    with color_clone_other [of x cv cr "ch w1"] that cl w1(2) show ?thesis by simp
  qed
  show "bags w' x = bags w x" if "x \<noteq> b" for x
    using that bw w2 w1(6) by simp
  show "ns w' = ns w" "cprops w' = cprops w" "arrows w' = arrows w"
    using bw(2) w2 w1(1,3,4) by simp_all
  show "next_color (ch w) \<le> next_color (ch w')"
    using bw(2) w2 w1(2) color_clone_next_mono [of "ch w1" cv cr] by simp
  show "next_bag w' = (case r of Some _ \<Rightarrow> next_bag w | None \<Rightarrow> Suc (next_bag w))"
    "next_cprop w' = next_cprop w" "next_arrow w' = next_arrow w"
    using r bw(2) w2 by (auto simp: getValue_result_def split: option.splits)
  assume hw: "color_heap_wf (ch w)" and rb: "\<And>x. rc = Some x \<Longrightarrow> x < next_color (ch w)"
  have chw: "ch w' = snd (color_clone cv cr (ch w))" using bw(2) w2 w1(2) by simp
  have "\<And>r'. cr = Some r' \<Longrightarrow> r' < next_color (ch w)"
    using rb by (auto simp: cr_def split: option.splits)
  with hw chw have "color_heap_wf (ch w')" by (simp add: color_clone_wf)
  moreover have "c < next_color (ch w')"
  proof -
    have "colors (ch w') c \<noteq> None" using chw color_clone_value [of cv cr "ch w"] cl w1(2) by simp
    with \<open>color_heap_wf (ch w')\<close> show ?thesis by (auto simp: color_heap_wf_def)
  qed
  ultimately show "color_heap_wf (ch w') \<and> c < next_color (ch w')" ..
qed


lemma getValue_read_color:
  "case getValue pa t r w of (b, w') \<Rightarrow>
     read_color w' b = Some (case slot_value w (p_color pa) t of Some x \<Rightarrow> x | None \<Rightarrow> color_WHITE)"
proof (cases "getValue pa t r w")
  case (Pair b w')
  from getValue_effect(2,3) [OF Pair] Pair show ?thesis
    by (auto simp: read_color_def bind_eq_Some_conv split: option.splits)
qed

text \<open>
  C17. Allocation of \<open>getValue\<close>: it allocates a result object exactly when
  none is supplied, and a colour object unless the slot has a value and the
  result already holds a colour to copy it into.  The white default is
  always cloned into a new object.
\<close>

theorem getValue_allocation:
  assumes gv: "getValue pa t r w = (b, w')"
  shows "next_bag w' = (if r = None then Suc (next_bag w) else next_bag w) \<and>
         next_color (ch w') =
           (if slot_value w (p_color pa) t \<noteq> None \<and> Option.bind r (\<lambda>b. Option.bind (bags w b) bag_color) \<noteq> None
            then next_color (ch w) else Suc (next_color (ch w)))"
proof -
  obtain b1 w1 where r: "getValue_result r w = (b1, w1)" by fastforce
  have w1: "bags w1 b1 = (case r of Some b0 \<Rightarrow> bags w b0 | None \<Rightarrow> Some \<lparr>bag_color = None\<rparr>)"
    "ch w1 = ch w" "cprops w1 = cprops w"
    using r by (auto simp: getValue_result_def split: option.splits)
  have "ch w' = ch (snd (getValueOrClonedDefault (p_color pa) t color_WHITE (Option.bind (bags w1 b1) bag_color) w1))"
    using gv r by (auto simp: getValue_def split: prod.splits)
  then have "next_color (ch w') = (if slot_value w (p_color pa) t \<noteq> None \<and>
      Option.bind (bags w1 b1) bag_color \<noteq> None then next_color (ch w) else Suc (next_color (ch w)))"
    using w1 by (simp add: getValueOrClonedDefault_next_color cprop_value_def)
  moreover have "Option.bind (bags w1 b1) bag_color = Option.bind r (\<lambda>b. Option.bind (bags w b) bag_color)"
    using w1(1) by (cases r) simp_all
  ultimately show ?thesis
    using getValue_effect(10) [OF gv] by (simp split: option.splits)
qed

text \<open>
  C7. Copy-on-read: the colour object \<open>getValue\<close> puts in the result is
  either the caller's own \<open>result.color\<close> or an object that did not exist
  before the call, never one shared with a property node or another caller.
\<close>

theorem getValue_copy_on_read:
  assumes "color_heap_wf (ch w)"
  shows "case getValue pa t r w of (b, w') \<Rightarrow>
     \<forall>c. Option.bind (bags w' b) bag_color = Some c \<longrightarrow> colors (ch w) c \<noteq> None \<longrightarrow>
         Option.bind r (\<lambda>b. Option.bind (bags w b) bag_color) = Some c"
proof (cases "getValue pa t r w")
  case (Pair b w')
  have "colors (ch w) (next_color (ch w)) = None"
    using assms by (auto simp: color_heap_wf_def)
  with getValue_effect(2) [OF Pair] Pair show ?thesis
    by (auto split: option.splits)
qed

text \<open>
  C15. When the slot yields no value at \<open>time\<close>, the white default is
  copied into a newly allocated colour object, even when the caller passed a
  result whose \<open>color\<close> object could have been reused.
\<close>

theorem getValue_default_fresh:
  "slot_value w (p_color pa) t = None \<Longrightarrow>
   case getValue pa t r w of (b, w') \<Rightarrow> Option.bind (bags w' b) bag_color = Some (next_color (ch w))"
  by (cases "getValue pa t r w") (auto dest: getValue_effect(2))

lemma isConstant_slot_value:
  "isConstant pa w \<Longrightarrow> slot_value w (p_color pa) t = slot_value w (p_color pa) t'"
  by (auto simp: isConstant_def cprop_value_def split: option.splits cprop.splits)

text \<open>
  C8. When \<open>isConstant\<close> holds, \<open>getValue\<close> yields the same colour at
  every time, whatever result objects are passed.
\<close>

theorem isConstant_getValue:
  assumes "isConstant pa w"
  shows "(case getValue pa t r w of (b, w') \<Rightarrow> read_color w' b) =
         (case getValue pa t' r' w of (b, w') \<Rightarrow> read_color w' b)"
  using getValue_read_color [where pa = pa and t = t and r = r and w = w]
    getValue_read_color [where pa = pa and t = t' and r = r' and w = w]
    isConstant_slot_value [OF assms, of t t']
  by (simp split: prod.splits)

lemma equals_slots:
  "arrows w a = Some pa \<Longrightarrow> arrows w b = Some pb \<Longrightarrow>
   equals w a (Some (ArrowRef b)) \<longleftrightarrow>
     a = b \<or> p_color pa = p_color pb \<or> (\<exists>p. p_color pa = Some p \<and> cprop_equals w p (p_color pb))"
  by (auto simp: equals_def split: option.split)

text \<open>
  C9. Two instances that \<open>equals\<close> relates resolve their colours to the
  same value at every time.
\<close>

theorem equals_getValue:
  assumes "equals w a (Some (ArrowRef b))" and "arrows w a = Some pa" and "arrows w b = Some pb"
  shows "slot_value w (p_color pa) t = slot_value w (p_color pb) t"
proof -
  from assms have "a = b \<or> p_color pa = p_color pb \<or> (\<exists>p. p_color pa = Some p \<and> cprop_equals w p (p_color pb))"
    by (simp add: equals_slots)
  then show ?thesis
  proof (elim disjE exE conjE)
    assume "a = b" with assms show ?thesis by simp
  next
    assume "p_color pa = p_color pb" then show ?thesis by simp
  next
    fix p assume p: "p_color pa = Some p" and eq: "cprop_equals w p (p_color pb)"
    from eq obtain q where q: "p_color pb = Some q" by (cases "p_color pb") auto
    from eq q have "cprop_value w p t = cprop_value w q t" by (simp add: cprop_equals_value)
    with p q show ?thesis by simp
  qed
qed

lemma slot_equals_trans:
  "x = y \<or> (\<exists>p. x = Some p \<and> cprop_equals w p y) \<Longrightarrow>
   y = z \<or> (\<exists>q. y = Some q \<and> cprop_equals w q z) \<Longrightarrow>
   x = z \<or> (\<exists>p. x = Some p \<and> cprop_equals w p z)"
  by (cases z; cases y) (auto intro: cprop_equals_trans)

text \<open>
  C10. \<open>equals\<close> is reflexive by identity, symmetric and transitive on
  instances.
\<close>

theorem equals_equivalence:
  "equals w a (Some (ArrowRef a)) \<and>
   (equals w a (Some (ArrowRef b)) \<longleftrightarrow> equals w b (Some (ArrowRef a))) \<and>
   (equals w a (Some (ArrowRef b)) \<longrightarrow> equals w b (Some (ArrowRef c)) \<longrightarrow> equals w a (Some (ArrowRef c)))"
proof (intro conjI impI)
  show "equals w a (Some (ArrowRef a))" by (simp add: equals_def)
  show "equals w a (Some (ArrowRef b)) \<longleftrightarrow> equals w b (Some (ArrowRef a))"
    by (auto simp: equals_def cprop_equals_sym split: option.splits)
  assume ab: "equals w a (Some (ArrowRef b))" and bc: "equals w b (Some (ArrowRef c))"
  show "equals w a (Some (ArrowRef c))"
  proof (cases "a = b \<or> b = c")
    case True
    with ab bc show ?thesis by auto
  next
    case False
    from ab False obtain pa pb where pa: "arrows w a = Some pa" and pb: "arrows w b = Some pb"
      by (auto simp: equals_def split: option.splits)
    from bc False obtain pc where pc: "arrows w c = Some pc"
      by (auto simp: equals_def split: option.splits)
    from ab bc False pa pb pc have
      "p_color pa = p_color pb \<or> (\<exists>p. p_color pa = Some p \<and> cprop_equals w p (p_color pb))"
      "p_color pb = p_color pc \<or> (\<exists>q. p_color pb = Some q \<and> cprop_equals w q (p_color pc))"
      by (simp_all add: equals_slots)
    then have "p_color pa = p_color pc \<or> (\<exists>p. p_color pa = Some p \<and> cprop_equals w p (p_color pc))"
      by (rule slot_equals_trans)
    with pa pc show ?thesis by (simp add: equals_slots)
  qed
qed


subsection \<open>Construction and the invariant\<close>

lemma arrow_init_inv:
  assumes inv: "arrow_inv D w" and nD: "next_arrow w \<notin> D"
  shows "arrow_inv D (snd (arrow_init w))"
proof -
  let ?a = "next_arrow w" and ?e = "next_ev (ns w)"
  let ?pa = "\<lparr>p_definitionChanged = ?e, p_color = None, p_colorSubscription = None\<rparr>"
  let ?w' = "snd (arrow_init w)"
  from inv have hb: "heap_bounded w" and own: "events_owned w" and fw: "forwards_ok w"
    and arr: "\<And>b pb. arrows w b = Some pb \<Longrightarrow> observers_only w pb \<and>
        (b \<in> D \<longrightarrow> no_forwards w pb) \<and> (b \<notin> D \<longrightarrow> slot_ok w pb \<and> subscription_exact w pb)"
    by (simp_all add: arrow_inv_def)
  have w': "?w' = w\<lparr>ns := (ns w)\<lparr>next_ev := Suc ?e\<rparr>, arrows := (arrows w)(?a \<mapsto> ?pa),
      next_arrow := Suc ?a\<rparr>"
    by (simp add: arrow_init_def)
  from hb have fresh_a: "arrows w ?a = None"
    by (auto simp: heap_bounded_def)
  from hb have fresh_e: "events (ns w) ?e = []"
    by (simp add: heap_bounded_def pstate_wf_def ns_wf_def)
  from hb have old_e: "\<And>b pb. arrows w b = Some pb \<Longrightarrow> p_definitionChanged pb < ?e"
    by (simp add: heap_bounded_def)
  have nofw: "\<And>e' h. (h, Forward ?e) \<notin> set (events (ns w) e')"
  proof
    fix e' h assume "(h, Forward ?e) \<in> set (events (ns w) e')"
    with fw obtain b pb where "arrows w b = Some pb" "p_definitionChanged pb = ?e"
      unfolding forwards_ok_def by blast
    with old_e show False by fastforce
  qed
  have "heap_bounded ?w'"
    using hb unfolding w' by (auto simp: heap_bounded_def pstate_wf_def ns_wf_def less_SucI)
  moreover have "events_owned ?w'"
    using own old_e hb unfolding w'
    by (auto simp: events_owned_def heap_bounded_def pstate_wf_def; fastforce)
  moreover have "forwards_ok ?w'"
    using fw fresh_a unfolding w' forwards_ok_def
    by (auto simp: fun_upd_apply) (metis option.distinct(1))
  moreover have "observers_only ?w' ?pa \<and> slot_ok ?w' ?pa \<and> subscription_exact ?w' ?pa"
    using fresh_e nofw unfolding w'
    by (auto simp: observers_only_def slot_ok_def subscription_exact_def filter_empty_conv)
  moreover have "observers_only ?w' pb \<and> (b \<in> D \<longrightarrow> no_forwards ?w' pb) \<and>
      (b \<notin> D \<longrightarrow> slot_ok ?w' pb \<and> subscription_exact ?w' pb)" if "arrows w b = Some pb" for b pb
    using arr [OF that] unfolding w'
    by (simp add: observers_only_def no_forwards_def slot_ok_def subscription_exact_def)
  ultimately show ?thesis
    using nD unfolding arrow_inv_def by (auto simp: w' fun_upd_apply split: if_splits)
qed

lemma empty_world_wf: "arrow_wf empty_world"
  by (simp add: arrow_wf_def arrow_inv_def heap_bounded_def pstate_wf_def ns_wf_def color_heap_wf_def
      events_owned_def forwards_ok_def empty_world_def)


lemma observe_inv:
  assumes inv: "arrow_inv D w" and e: "e < next_ev (ns w)"
  shows "arrow_inv D (snd (observe e k w))"
proof -
  let ?h = "next_handle (ns w)"
  let ?E' = "(events (ns w))(e := events (ns w) e @ [(?h, Observer k)])"
  have w': "snd (observe e k w) = w\<lparr>ns := (ns w)\<lparr>events := ?E', next_handle := Suc ?h\<rparr>\<rparr>"
    by (simp add: observe_def addEventListener_def)
  from inv have hb: "heap_bounded w" and own: "events_owned w" and fw: "forwards_ok w"
    and arr: "\<And>b pb. arrows w b = Some pb \<Longrightarrow> observers_only w pb \<and>
        (b \<in> D \<longrightarrow> no_forwards w pb) \<and> (b \<notin> D \<longrightarrow> slot_ok w pb \<and> subscription_exact w pb)"
    by (simp_all add: arrow_inv_def)
  have nswf: "ns_wf ((ns w)\<lparr>events := ?E', next_handle := Suc ?h\<rparr>)"
    using hb e addEventListener_ns_wf [of "ns w" e "Observer k"]
    by (simp add: heap_bounded_def pstate_wf_def addEventListener_def)
  have fwd: "(h, Forward f) \<in> set (?E' e') \<longleftrightarrow> (h, Forward f) \<in> set (events (ns w) e')" for e' h f
    by auto
  have "heap_bounded (snd (observe e k w))"
    using hb nswf unfolding w' by (simp add: heap_bounded_def pstate_wf_def)
  moreover have "events_owned (snd (observe e k w))"
    using own unfolding w' by (simp add: events_owned_def)
  moreover have "forwards_ok (snd (observe e k w))"
    using fw unfolding w' forwards_ok_def by (auto split: if_splits)
  moreover have "observers_only (snd (observe e k w)) pb \<and>
      (b \<in> D \<longrightarrow> no_forwards (snd (observe e k w)) pb) \<and>
      (b \<notin> D \<longrightarrow> slot_ok (snd (observe e k w)) pb \<and> subscription_exact (snd (observe e k w)) pb)"
    if "arrows (snd (observe e k w)) b = Some pb" for b pb
    using arr [of b pb] that unfolding w'
    by (auto simp: observers_only_def no_forwards_def slot_ok_def subscription_exact_def
        is_observer_def)
  ultimately show ?thesis by (simp add: arrow_inv_def)
qed


text \<open>
  \<open>getValue\<close> keeps the heap well-formed when the result object it is
  given (if any) is allocated.
\<close>

lemma getValue_wf:
  assumes wf: "arrow_wf w" and r: "\<And>b. r = Some b \<Longrightarrow> b \<in> dom (bags w)"
  shows "case getValue pa t r w of (b, w') \<Rightarrow> arrow_wf w'"
proof (cases "getValue pa t r w")
  case (Pair b w')
  note e = getValue_effect [OF Pair]
  from wf have inv: "arrow_inv {} w" by (simp add: arrow_wf_def)
  then have hb: "heap_bounded w" by (simp add: arrow_inv_def)
  let ?rc = "Option.bind r (\<lambda>b. Option.bind (bags w b) bag_color)"
  have rb: "x < next_color (ch w)" if "?rc = Some x" for x
    using hb that by (auto simp: heap_bounded_def bind_eq_Some_conv)
  from hb have "color_heap_wf (ch w)" by (simp add: heap_bounded_def pstate_wf_def)
  from e(13) [OF this rb] have chw: "color_heap_wf (ch w')"
    and clt: "the (Option.bind (bags w' b) bag_color) < next_color (ch w')"
    using e(2) by simp_all
  have "heap_bounded w'"
  proof -
    have bdom: "b < next_bag w'"
      using e(1) e(10) r hb by (auto simp: heap_bounded_def split: option.splits)
    have bags_ok: "\<forall>x\<in>dom (bags w'). x < next_bag w'"
    proof
      fix x assume x: "x \<in> dom (bags w')"
      show "x < next_bag w'"
      proof (cases "x = b")
        case True
        with bdom show ?thesis by simp
      next
        case False
        with x e(5) have "x \<in> dom (bags w)" by (simp add: dom_def)
        with hb have "x < next_bag w" by (auto simp: heap_bounded_def)
        with e(10) show ?thesis by (auto split: option.splits)
      qed
    qed
    have colors_ok: "c < next_color (ch w')" if "bags w' x = Some bg" "bag_color bg = Some c" for x bg c
    proof (cases "x = b")
      case True
      with that e(2) clt show ?thesis by simp
    next
      case False
      with that e(5) hb e(9) show ?thesis by (fastforce simp: heap_bounded_def)
    qed
    show ?thesis
      using hb chw bags_ok colors_ok e(6-8,11,12)
      by (simp add: heap_bounded_def pstate_wf_def)
  qed
  with inv e(6-8) show ?thesis
    by (simp add: Pair arrow_wf_def arrow_inv_def events_owned_def forwards_ok_def
        observers_only_def no_forwards_def slot_ok_def subscription_exact_def)
qed

lemma set_color_slot:
  assumes a: "arrows w a = Some pa" and res: "set_color a v w = Some w'"
  shows "\<exists>pa'. arrows w' a = Some pa' \<and> p_definitionChanged pa' = p_definitionChanged pa \<and>
           p_color pa' = fst (wrap_color v w)"
proof -
  obtain nv w1 where wr: "wrap_color v w = (nv, w1)" by fastforce
  from wrap_color_frame [OF wr] a have a1: "arrows w1 a = Some pa" by simp
  show ?thesis
  proof (cases "nv = p_color pa")
    case True
    with res a wr a1 show ?thesis by (simp add: set_color_def)
  next
    case False
    let ?w3 = "subscribe_color a pa nv (unsubscribe_color pa w1)"
    have "\<exists>pa'. arrows ?w3 a = Some pa' \<and> p_definitionChanged pa' = p_definitionChanged pa \<and> p_color pa' = nv"
      by (auto simp: subscribe_color_def unsubscribe_color_frame addEventListener_def split: option.split)
    moreover from res a wr False obtain s where "w' = ?w3\<lparr>ns := s\<rparr>"
      by (auto simp: set_color_def Let_def)
    ultimately show ?thesis using wr by auto
  qed
qed

lemma PolylineArrowMaterialProperty_eq:
  "PolylineArrowMaterialProperty v w = map_option (Pair (next_arrow w)) (set_color (next_arrow w) v (snd (arrow_init w)))"
  by (simp add: PolylineArrowMaterialProperty_def arrow_init_def)

text \<open>
  C11. The constructor, from a well-formed heap and an admissible initial
  colour, returns a new instance, leaves the heap well-formed and stores the
  (wrapped) initial colour in the slot.
\<close>

theorem PolylineArrowMaterialProperty_wf:
  assumes wf: "arrow_wf w" and v: "input_ok w v"
  shows "\<exists>a w' pa. PolylineArrowMaterialProperty v w = Some (a, w') \<and> arrow_wf w' \<and>
           arrows w' a = Some pa \<and> p_color pa = fst (wrap_color v (snd (arrow_init w)))"
proof -
  let ?a = "next_arrow w" and ?w1 = "snd (arrow_init w)"
  from wf have "arrow_wf ?w1" by (simp add: arrow_wf_def arrow_init_inv)
  moreover have a1: "arrows ?w1 ?a = Some \<lparr>p_definitionChanged = next_ev (ns w), p_color = None,
      p_colorSubscription = None\<rparr>"
    by (simp add: arrow_init_def)
  moreover from v have "input_ok ?w1 v" by (cases v) (simp_all add: input_ok_def arrow_init_def)
  ultimately obtain w' where w': "set_color ?a v ?w1 = Some w'" "arrow_wf w'"
    using set_color_keeps_wf by blast
  from set_color_slot [OF a1 w'(1)] obtain pa where "arrows w' ?a = Some pa"
    "p_color pa = fst (wrap_color v ?w1)" by blast
  with w' show ?thesis by (auto simp: PolylineArrowMaterialProperty_eq)
qed

text \<open>
  C12. Constructed without a colour, an instance has an empty slot, is
  constant, yields white at every time, and no observer is notified.
\<close>

theorem PolylineArrowMaterialProperty_default:
  "case PolylineArrowMaterialProperty NoColor w of
     None \<Rightarrow> False
   | Some (a, w') \<Rightarrow>
       \<exists>pa. arrows w' a = Some pa \<and> get_color pa = None \<and> isConstant pa w' \<and>
         (\<forall>t r. case getValue pa t r w' of (b, w'') \<Rightarrow> read_color w'' b = Some color_WHITE) \<and>
         log (ns w') = log (ns w)"
proof -
  have "PolylineArrowMaterialProperty NoColor w = Some (next_arrow w, snd (arrow_init w))"
    by (simp add: PolylineArrowMaterialProperty_eq set_color_def arrow_init_def wrap_color_def)
  moreover have "arrows (snd (arrow_init w)) (next_arrow w) =
      Some \<lparr>p_definitionChanged = next_ev (ns w), p_color = None, p_colorSubscription = None\<rparr>"
    by (simp add: arrow_init_def)
  moreover have "case getValue \<lparr>p_definitionChanged = next_ev (ns w), p_color = None, p_colorSubscription = None\<rparr>
       t r w' of (b, w'') \<Rightarrow> read_color w'' b = Some color_WHITE" for t r w'
    using getValue_read_color [where pa = "\<lparr>p_definitionChanged = next_ev (ns w), p_color = None,
        p_colorSubscription = None\<rparr>" and t = t and r = r and w = w'] by simp
  ultimately show ?thesis
    by (simp add: get_color_def isConstant_def arrow_init_def)
qed


subsection \<open>Properties of the arrow material\<close>

text \<open>
  C1. Assigning the \<open>color\<close> slot (undefined, an allocated colour
  property, or a literal colour) of an instance in a well-formed heap
  returns, leaves the heap well-formed (every non-empty slot holds exactly
  one forwarding subscription to its node's event, an empty slot none) and
  stores the assigned value, a literal being wrapped in a new node.
\<close>

theorem set_color_wf:
  assumes wf: "arrow_wf w" and a: "arrows w a = Some pa" and v: "input_ok w v"
  shows "\<exists>w' pa'. set_color a v w = Some w' \<and> arrow_wf w' \<and> arrows w' a = Some pa' \<and>
           get_color pa' = fst (wrap_color v w)"
proof -
  from set_color_keeps_wf [OF wf a v] obtain w' where w': "set_color a v w = Some w'" "arrow_wf w'"
    by blast
  from set_color_slot [OF a w'(1)] w' show ?thesis by (auto simp: get_color_def)
qed

text \<open>
  C6. \<open>getValue(time, result)\<close> returns the caller's result object when
  one is given and a new one otherwise, and its \<open>color\<close> key always holds
  a colour: the slot's value at \<open>time\<close> when it has one, white otherwise.
\<close>

theorem getValue_populates:
  "case getValue pa t r w of (b, w') \<Rightarrow>
     b = (case r of Some b0 \<Rightarrow> b0 | None \<Rightarrow> next_bag w) \<and>
     read_color w' b = Some (case slot_value w (p_color pa) t of Some x \<Rightarrow> x | None \<Rightarrow> color_WHITE)"
  using getValue_read_color [where pa = pa and t = t and r = r and w = w]
    getValue_effect(1) [where pa = pa and t = t and r = r and w = w]
  by (auto split: prod.splits)

text \<open>
  C14. Assigning a literal colour always stores a fresh constant node holding
  that colour and raises the arrow's event once, so every host observer of
  the arrow is notified even when the colour equals the one already shown.
\<close>

theorem set_color_literal_notifies:
  assumes wf: "arrow_wf w" and a: "arrows w a = Some pa"
  shows "\<exists>w' pa' p. set_color a (ColorValue c) w = Some w' \<and> arrows w' a = Some pa' \<and>
           get_color pa' = Some p \<and> p \<notin> dom (cprops w) \<and> (\<forall>t. cprop_value w' p t = Some c) \<and>
           log (ns w') = log (ns w) @ observers (events (ns w) (p_definitionChanged pa))"
proof -
  obtain nv w1 where wr: "wrap_color (ColorValue c) w = (nv, w1)" by fastforce
  then have nv: "nv = Some (next_cprop w)"
    and c1: "cprops w1 (next_cprop w) = Some (ConstantProperty (Some c) (next_ev (ns w)))"
    by (auto simp: wrap_color_def)
  have ok: "input_ok w (ColorValue c)" by (simp add: input_ok_def)
  have ns: "\<not> same_value pa (ColorValue c)" by (simp add: same_value_def)
  from set_color_keeps_wf [OF wf a ok] obtain w' where w': "set_color a (ColorValue c) w = Some w'"
    by blast
  from set_color_slot [OF a w'] wr nv obtain pa' where pa': "arrows w' a = Some pa'"
    "p_color pa' = Some (next_cprop w)" by auto
  from wf have fresh: "next_cprop w \<notin> dom (cprops w)"
    by (auto simp: arrow_wf_def arrow_inv_def heap_bounded_def pstate_wf_def)
  define w3 where "w3 = subscribe_color a pa nv (unsubscribe_color pa w1)"
  note r = set_color_replace [OF wf a ok ns wr, folded w3_def]
  from r(2) w' obtain s where s: "raiseEvent dispatch_fuel (p_definitionChanged pa) (ns w3) = Some s"
    and w'3: "w' = w3\<lparr>ns := s\<rparr>"
    by (cases "raiseEvent dispatch_fuel (p_definitionChanged pa) (ns w3)") auto
  moreover have "cprops w3 = cprops w1"
    by (auto simp: w3_def subscribe_color_def unsubscribe_color_frame addEventListener_def
        split: option.split)
  ultimately have cp: "cprops w' = cprops w1" by simp
  from wf a have "observers_only w pa" by (simp add: arrow_wf_def arrow_inv_def)
  with r(3) have "\<forall>x\<in>set (events (ns w3) (p_definitionChanged pa)). is_observer (snd x)"
    by (simp add: observers_only_def)
  then have "fired dispatch_fuel (p_definitionChanged pa) (events (ns w3)) =
      Some (observers (events (ns w) (p_definitionChanged pa)))"
    by (simp add: dispatch_fuel_def numeral_2_eq_2 fired_list_observers r(3))
  with s w'3 r(4) have "log (ns w') = log (ns w) @ observers (events (ns w) (p_definitionChanged pa))"
    by (auto simp: raiseEvent_fired)
  with fresh cp show ?thesis
    using w' pa' c1 by (auto simp: get_color_def cprop_value_def)
qed

end
