(* ===== verification/Host.thy ===== *)
theory Host
  imports ArrowMaterial
begin

text \<open>
  The host side of the data-source layer: the calls a renderer or UI
  binding makes on arrow materials and on the colour properties it plugs
  into them.  \<open>host_op\<close> lists them; \<open>host_ok\<close> is what the caller must
  supply (allocated objects, a removal handle of its own); \<open>step\<close> runs one
  call, \<open>run\<close> a sequence, and \<open>reachable\<close> is the set of heaps a host can
  produce from the empty heap.  The changes of sub-properties are the
  mutators of the two stand-in kinds: \<open>ConstantProperty.setValue\<close> and
  \<open>addSample\<close> of a sampled property (neither file is under \<open>src/\<close>;
  modelled from the contract of spec section 4.1: the state is updated, then
  the node's event is raised once).
\<close>

text \<open>\<open>new ConstantProperty(value)\<close> and \<open>new SampledProperty(Color)\<close>: a node with a new event.\<close>

definition new_cprop :: "(evid \<Rightarrow> cprop) \<Rightarrow> world \<Rightarrow> addr \<times> world" where
  "new_cprop mk w =
     (next_cprop w,
      w\<lparr>ns := (ns w)\<lparr>next_ev := Suc (next_ev (ns w))\<rparr>,
        cprops := (cprops w)(next_cprop w \<mapsto> mk (next_ev (ns w))),
        next_cprop := Suc (next_cprop w)\<rparr>)"

text \<open>\<open>this._definitionChanged.raiseEvent(this)\<close> of a node.\<close>

definition notify :: "evid \<Rightarrow> world \<Rightarrow> world option" where
  "notify e w = map_option (\<lambda>s. w\<lparr>ns := s\<rparr>) (raiseEvent dispatch_fuel e (ns w))"

text \<open>
  \<open>ConstantProperty.setValue(value)\<close>: nothing happens when the value is
  equal to the one held (\<open>Color.equals\<close>), otherwise the value is replaced
  and the node's event raised.  Other kinds have no \<open>setValue\<close>.
\<close>

definition setValue :: "addr \<Rightarrow> color \<Rightarrow> world \<Rightarrow> world option" where
  "setValue p c w =
     (case cprops w p of
        Some (ConstantProperty v e) \<Rightarrow>
          if v = Some c then Some w
          else notify e (w\<lparr>cprops := (cprops w)(p \<mapsto> ConstantProperty (Some c) e)\<rparr>)
      | _ \<Rightarrow> None)"

text \<open>\<open>addSample(time, value)\<close>: the new sample takes precedence at its time.\<close>

definition addSample :: "addr \<Rightarrow> time \<Rightarrow> color \<Rightarrow> world \<Rightarrow> world option" where
  "addSample p t c w =
     (case cprops w p of
        Some (TimeVarying s e) \<Rightarrow> notify e (w\<lparr>cprops := (cprops w)(p \<mapsto> TimeVarying ((t, c) # s) e)\<rparr>)
      | _ \<Rightarrow> None)"

datatype host_op =
    NewArrow color_input
  | AssignColor addr color_input
  | ReadValue addr time "addr option"
  | NewConstant "color option"
  | NewSampled "(time \<times> color) list"
  | SetConstant addr color
  | AddSample addr time color
  | Subscribe evid nat
  | Unsubscribe evid handle

text \<open>
  Admissible calls: objects passed are allocated, and a host removes only
  registrations of its own callbacks (the closures an arrow registers on its
  sub-properties are private to it).
\<close>

definition host_ok :: "world \<Rightarrow> host_op \<Rightarrow> bool" where
  "host_ok w op =
     (case op of
        NewArrow v \<Rightarrow> input_ok w v
      | AssignColor a v \<Rightarrow> arrows w a \<noteq> None \<and> input_ok w v
      | ReadValue a t r \<Rightarrow> arrows w a \<noteq> None \<and> (case r of None \<Rightarrow> True | Some b \<Rightarrow> bags w b \<noteq> None)
      | NewConstant c \<Rightarrow> True
      | NewSampled s \<Rightarrow> True
      | SetConstant p c \<Rightarrow> (case cprops w p of Some (ConstantProperty _ _) \<Rightarrow> True | _ \<Rightarrow> False)
      | AddSample p t c \<Rightarrow> (case cprops w p of Some (TimeVarying _ _) \<Rightarrow> True | _ \<Rightarrow> False)
      | Subscribe e k \<Rightarrow> e < next_ev (ns w)
      | Unsubscribe e h \<Rightarrow> \<not> list_ex (\<lambda>x. fst x = h \<and> \<not> is_observer (snd x)) (events (ns w) e))"

definition exec :: "host_op \<Rightarrow> world \<Rightarrow> world option" where
  "exec op w =
     (case op of
        NewArrow v \<Rightarrow> map_option snd (PolylineArrowMaterialProperty v w)
      | AssignColor a v \<Rightarrow> set_color a v w
      | ReadValue a t r \<Rightarrow> (case arrows w a of None \<Rightarrow> None | Some pa \<Rightarrow> Some (snd (getValue pa t r w)))
      | NewConstant c \<Rightarrow> Some (snd (new_cprop (ConstantProperty c) w))
      | NewSampled s \<Rightarrow> Some (snd (new_cprop (TimeVarying s) w))
      | SetConstant p c \<Rightarrow> setValue p c w
      | AddSample p t c \<Rightarrow> addSample p t c w
      | Subscribe e k \<Rightarrow> Some (snd (observe e k w))
      | Unsubscribe e h \<Rightarrow> Some (unobserve e h w))"

definition step :: "host_op \<Rightarrow> world \<Rightarrow> world option" where
  "step op w = (if host_ok w op then exec op w else None)"

inductive reachable :: "world \<Rightarrow> bool" where
  init: "reachable empty_world"
| step: "reachable w \<Longrightarrow> step op w = Some w' \<Longrightarrow> reachable w'"

text \<open>
  The abstract view of the arrows: the node each \<open>color\<close> slot holds.
  \<open>slots_exec\<close> is the abstract effect of a host call on it, given the
  next free arrow and node addresses.
\<close>

definition slots :: "world \<Rightarrow> addr \<rightharpoonup> addr option" where
  "slots w = (\<lambda>a. map_option p_color (arrows w a))"

fun wrapped :: "color_input \<Rightarrow> addr \<Rightarrow> addr option" where
  "wrapped NoColor n = None"
| "wrapped (PropertyValue p) n = Some p"
| "wrapped (ColorValue c) n = Some n"

fun slots_exec :: "host_op \<Rightarrow> addr \<Rightarrow> addr \<Rightarrow> (addr \<rightharpoonup> addr option) \<Rightarrow> (addr \<rightharpoonup> addr option)" where
  "slots_exec (NewArrow v) na nc \<sigma> = \<sigma>(na \<mapsto> wrapped v nc)"
| "slots_exec (AssignColor a v) na nc \<sigma> = \<sigma>(a \<mapsto> wrapped v nc)"
| "slots_exec op na nc \<sigma> = \<sigma>"

text \<open>Typing of the result objects: the \<open>color\<close> key is defined and holds a \<open>Color\<close> object.\<close>

definition heap_typed :: "world \<Rightarrow> bool" where
  "heap_typed w \<longleftrightarrow>
     (\<forall>b bg. bags w b = Some bg \<longrightarrow> (\<exists>c. bag_color bg = Some c \<and> colors (ch w) c \<noteq> None))"

subsection \<open>Each call keeps the invariant\<close>

lemma new_cprop_inv:
  assumes inv: "arrow_inv D w" and mk: "\<And>e. cprop_ev (mk e) = e"
  shows "arrow_inv D (snd (new_cprop mk w))"
proof -
  let ?w1 = "snd (new_cprop mk w)" and ?p = "next_cprop w" and ?e = "next_ev (ns w)"
  have arr: "arrows ?w1 = arrows w" and ev: "events (ns ?w1) = events (ns w)"
    and cp: "cprops ?w1 = (cprops w)(?p \<mapsto> mk ?e)"
    by (simp_all add: new_cprop_def)
  from inv have hb: "heap_bounded w" and own: "events_owned w" and fw: "forwards_ok w"
    and per: "\<And>a pa. arrows w a = Some pa \<Longrightarrow> observers_only w pa \<and>
        (a \<in> D \<longrightarrow> no_forwards w pa) \<and> (a \<notin> D \<longrightarrow> slot_ok w pa \<and> subscription_exact w pa)"
    by (simp_all add: arrow_inv_def)
  from hb have fresh_p: "cprops w ?p = None"
    by (auto simp: heap_bounded_def pstate_wf_def)
  from hb have cp_e: "\<And>q n. cprops w q = Some n \<Longrightarrow> cprop_ev n < ?e"
    and arr_e: "\<And>a pa. arrows w a = Some pa \<Longrightarrow> p_definitionChanged pa < ?e"
    by (auto simp: heap_bounded_def pstate_wf_def)
  have "heap_bounded ?w1"
    using hb mk by (auto simp: heap_bounded_def pstate_wf_def ns_wf_def new_cprop_def less_SucI)
  moreover have "events_owned ?w1"
    using own cp_e arr_e mk unfolding events_owned_def arr cp by (auto simp: fun_upd_apply) (metis less_irrefl)+
  moreover have "forwards_ok ?w1"
    using fw by (simp add: forwards_ok_def arr ev)
  moreover have "observers_only ?w1 pa \<and> (a \<in> D \<longrightarrow> no_forwards ?w1 pa) \<and>
      (a \<notin> D \<longrightarrow> slot_ok ?w1 pa \<and> subscription_exact ?w1 pa)" if "arrows ?w1 a = Some pa" for a pa
  proof -
    from that per [of a pa] have p: "observers_only w pa \<and> (a \<in> D \<longrightarrow> no_forwards w pa) \<and>
        (a \<notin> D \<longrightarrow> slot_ok w pa \<and> subscription_exact w pa)" by (simp add: arr)
    have "slot_ok ?w1 pa" if "slot_ok w pa"
      using that fresh_p by (auto simp: slot_ok_def cp)
    with p show ?thesis
      by (simp add: observers_only_def no_forwards_def subscription_exact_def ev)
  qed
  ultimately show ?thesis by (simp add: arrow_inv_def)
qed

lemma cprop_update_inv:
  assumes inv: "arrow_inv D w" and p: "cprops w p = Some n" and m: "cprop_ev m = cprop_ev n"
  shows "arrow_inv D (w\<lparr>cprops := (cprops w)(p \<mapsto> m)\<rparr>)"
proof -
  let ?w1 = "w\<lparr>cprops := (cprops w)(p \<mapsto> m)\<rparr>"
  from inv have hb: "heap_bounded w" and own: "events_owned w" and fw: "forwards_ok w"
    and per: "\<And>a pa. arrows w a = Some pa \<Longrightarrow> observers_only w pa \<and>
        (a \<in> D \<longrightarrow> no_forwards w pa) \<and> (a \<notin> D \<longrightarrow> slot_ok w pa \<and> subscription_exact w pa)"
    by (simp_all add: arrow_inv_def)
  have ev: "\<And>q k. cprops ?w1 q = Some k \<Longrightarrow> \<exists>k'. cprops w q = Some k' \<and> cprop_ev k' = cprop_ev k"
    using p m by (auto split: if_splits)
  have "heap_bounded ?w1"
    using hb p m by (auto simp: heap_bounded_def pstate_wf_def)
  moreover have "events_owned ?w1"
    unfolding events_owned_def
  proof (intro conjI allI impI)
    fix a b pa pb
    assume "arrows ?w1 a = Some pa" "arrows ?w1 b = Some pb" "p_definitionChanged pa = p_definitionChanged pb"
    with own show "a = b" by (simp add: events_owned_def)
  next
    fix a pa q k
    assume a: "arrows ?w1 a = Some pa" and q: "cprops ?w1 q = Some k"
    from ev [OF q] obtain k' where "cprops w q = Some k'" "cprop_ev k' = cprop_ev k" by blast
    moreover from a have "arrows w a = Some pa" by simp
    ultimately show "p_definitionChanged pa \<noteq> cprop_ev k" using own unfolding events_owned_def by metis
  next
    fix q r k l
    assume q: "cprops ?w1 q = Some k" and r: "cprops ?w1 r = Some l" and kl: "cprop_ev k = cprop_ev l"
    from ev [OF q] ev [OF r] obtain k' l' where "cprops w q = Some k'" "cprop_ev k' = cprop_ev k"
      "cprops w r = Some l'" "cprop_ev l' = cprop_ev l" by blast
    with kl own show "q = r" unfolding events_owned_def by metis
  qed
  moreover have "forwards_ok ?w1"
    using fw by (simp add: forwards_ok_def)
  moreover have "observers_only ?w1 pa \<and> (a \<in> D \<longrightarrow> no_forwards ?w1 pa) \<and>
      (a \<notin> D \<longrightarrow> slot_ok ?w1 pa \<and> subscription_exact ?w1 pa)" if "arrows ?w1 a = Some pa" for a pa
  proof -
    from that per [of a pa] have q: "observers_only w pa \<and> (a \<in> D \<longrightarrow> no_forwards w pa) \<and>
        (a \<notin> D \<longrightarrow> slot_ok w pa \<and> subscription_exact w pa)" by simp
    have "slot_ok ?w1 pa" if "slot_ok w pa"
      using that p m by (auto simp: slot_ok_def)
    with q show ?thesis
      by (simp add: observers_only_def no_forwards_def subscription_exact_def)
  qed
  ultimately show ?thesis by (simp add: arrow_inv_def)
qed

lemma notify_inv:
  assumes "arrow_inv D w"
  shows "\<exists>w'. notify e w = Some w' \<and> arrow_inv D w'"
  using arrow_inv_dispatch [OF assms, of e] by (auto simp: notify_def)

lemma unobserve_inv:
  assumes inv: "arrow_inv D w"
    and own: "\<not> list_ex (\<lambda>x. fst x = h \<and> \<not> is_observer (snd x)) (events (ns w) e)"
  shows "arrow_inv D (unobserve e h w)"
proof -
  let ?w1 = "unobserve e h w"
  from inv have hb: "heap_bounded w" and ow: "events_owned w" and fw: "forwards_ok w"
    and per: "\<And>a pa. arrows w a = Some pa \<Longrightarrow> observers_only w pa \<and>
        (a \<in> D \<longrightarrow> no_forwards w pa) \<and> (a \<notin> D \<longrightarrow> slot_ok w pa \<and> subscription_exact w pa)"
    by (simp_all add: arrow_inv_def)
  from hb have nw: "ns_wf (ns w)" by (simp add: heap_bounded_def pstate_wf_def)
  then have d: "distinct (map fst (events (ns w) e))" by (simp add: ns_wf_def)
  have ev: "events (ns ?w1) = (events (ns w))(e := filter (\<lambda>x. fst x \<noteq> h) (events (ns w) e))"
    by (simp add: unobserve_def removeEventListener_events [OF d])
  have fwd: "filter (\<lambda>x. snd x = Forward f) (events (ns ?w1) e') = filter (\<lambda>x. snd x = Forward f) (events (ns w) e')"
    for f e'
  proof -
    from own have "\<And>x. x \<in> set (events (ns w) e) \<Longrightarrow> snd x = Forward f \<Longrightarrow> fst x \<noteq> h"
      by (auto simp: list_ex_iff is_observer_def)
    then have "filter (\<lambda>x. fst x \<noteq> h \<and> snd x = Forward f) (events (ns w) e) =
        filter (\<lambda>x. snd x = Forward f) (events (ns w) e)"
      by (intro filter_cong) auto
    then show ?thesis by (simp add: ev)
  qed
  have subd: "x \<in> set (events (ns ?w1) e') \<Longrightarrow> x \<in> set (events (ns w) e')" for x e'
    by (auto simp: ev split: if_splits)
  have arr1: "arrows ?w1 = arrows w" "cprops ?w1 = cprops w"
    by (simp_all add: unobserve_def)
  have fr: "next_ev (ns ?w1) = next_ev (ns w)" "next_handle (ns ?w1) = next_handle (ns w)"
    by (simp_all add: unobserve_def removeEventListener_def)
  have "heap_bounded ?w1"
    using hb removeEventListener_ns_wf [OF nw, of e h]
    by (simp add: heap_bounded_def pstate_wf_def unobserve_def removeEventListener_def)
  moreover have "events_owned ?w1"
    using ow by (simp add: events_owned_def unobserve_def)
  moreover have "forwards_ok ?w1"
    using fw by (fastforce simp: forwards_ok_def arr1 dest: subd)
  moreover have "observers_only ?w1 pa \<and> (a \<in> D \<longrightarrow> no_forwards ?w1 pa) \<and>
      (a \<notin> D \<longrightarrow> slot_ok ?w1 pa \<and> subscription_exact ?w1 pa)" if "arrows ?w1 a = Some pa" for a pa
  proof -
    from that arr1 per [of a pa] have q: "observers_only w pa" "a \<in> D \<Longrightarrow> no_forwards w pa"
        "a \<notin> D \<Longrightarrow> slot_ok w pa" "a \<notin> D \<Longrightarrow> subscription_exact w pa" by simp_all
    have "observers_only ?w1 pa" using q(1) by (auto simp: observers_only_def dest: subd)
    moreover have "a \<in> D \<Longrightarrow> no_forwards ?w1 pa" using q(2) by (auto simp: no_forwards_def dest: subd)
    moreover have "a \<notin> D \<Longrightarrow> slot_ok ?w1 pa" using q(3) by (simp add: slot_ok_def arr1)
    moreover have "a \<notin> D \<Longrightarrow> subscription_exact ?w1 pa" using q(4) by (simp add: subscription_exact_def fwd)
    ultimately show ?thesis by blast
  qed
  ultimately show ?thesis by (simp add: arrow_inv_def)
qed

lemma PolylineArrowMaterialProperty_keeps_wf:
  assumes wf: "arrow_wf w" and v: "input_ok w v"
  shows "\<exists>a w'. PolylineArrowMaterialProperty v w = Some (a, w') \<and> arrow_wf w'"
proof -
  let ?w1 = "snd (arrow_init w)"
  from wf have i: "arrow_wf ?w1"
    using arrow_init_inv [of "{}" w] by (simp add: arrow_wf_def)
  have a: "arrows ?w1 (next_arrow w) = Some \<lparr>p_definitionChanged = next_ev (ns w), p_color = None,
      p_colorSubscription = None\<rparr>"
    by (simp add: arrow_init_def)
  have "input_ok ?w1 v"
    using v by (simp add: input_ok_def arrow_init_def split: color_input.splits)
  from set_color_keeps_wf [OF i a this] show ?thesis
    by (auto simp: PolylineArrowMaterialProperty_eq)
qed

lemma exec_wf:
  assumes wf: "arrow_wf w" and ok: "host_ok w op"
  shows "\<exists>w'. exec op w = Some w' \<and> arrow_wf w'"
proof (cases op)
  case (NewArrow v)
  with PolylineArrowMaterialProperty_keeps_wf [OF wf] ok show ?thesis
    by (fastforce simp: exec_def host_ok_def)
next
  case (AssignColor a v)
  with ok obtain pa where "arrows w a = Some pa" "input_ok w v" by (auto simp: host_ok_def)
  from set_color_keeps_wf [OF wf this] AssignColor show ?thesis by (simp add: exec_def)
next
  case (ReadValue a t r)
  with ok obtain pa where pa: "arrows w a = Some pa" and r: "\<And>b. r = Some b \<Longrightarrow> b \<in> dom (bags w)"
    by (auto simp: host_ok_def split: option.splits)
  from getValue_wf [where w = w and r = r and pa = pa and t = t, OF wf r] pa ReadValue show ?thesis
    by (simp add: exec_def split: prod.splits)
next
  case (NewConstant c)
  with new_cprop_inv [of "{}" w "ConstantProperty c"] wf show ?thesis
    by (simp add: exec_def arrow_wf_def)
next
  case (NewSampled s)
  with new_cprop_inv [of "{}" w "TimeVarying s"] wf show ?thesis
    by (simp add: exec_def arrow_wf_def)
next
  case (SetConstant p c)
  with ok obtain v e where p: "cprops w p = Some (ConstantProperty v e)"
    by (auto simp: host_ok_def split: option.splits cprop.splits)
  from wf cprop_update_inv [OF _ p, of "{}" "ConstantProperty (Some c) e"]
  have "arrow_wf (w\<lparr>cprops := (cprops w)(p \<mapsto> ConstantProperty (Some c) e)\<rparr>)"
    by (simp add: arrow_wf_def)
  from notify_inv [OF this [unfolded arrow_wf_def], of e] wf p SetConstant show ?thesis
    by (auto simp: exec_def setValue_def arrow_wf_def)
next
  case (AddSample p t c)
  with ok obtain s e where p: "cprops w p = Some (TimeVarying s e)"
    by (auto simp: host_ok_def split: option.splits cprop.splits)
  from wf cprop_update_inv [OF _ p, of "{}" "TimeVarying ((t, c) # s) e"]
  have "arrow_wf (w\<lparr>cprops := (cprops w)(p \<mapsto> TimeVarying ((t, c) # s) e)\<rparr>)"
    by (simp add: arrow_wf_def)
  from notify_inv [OF this [unfolded arrow_wf_def], of e] p AddSample show ?thesis
    by (auto simp: exec_def addSample_def arrow_wf_def)
next
  case (Subscribe e k)
  with ok observe_inv [of "{}" w e k] wf show ?thesis
    by (simp add: exec_def host_ok_def arrow_wf_def)
next
  case (Unsubscribe e h)
  with ok unobserve_inv [of "{}" w h e] wf show ?thesis
    by (simp add: exec_def host_ok_def arrow_wf_def)
qed

lemma step_host_ok: "step op w = Some w' \<Longrightarrow> host_ok w op"
  by (simp add: step_def split: if_splits)

lemma reachable_arrow_wf: "reachable w \<Longrightarrow> arrow_wf w"
proof (induction rule: reachable.induct)
  case init
  then show ?case by (rule empty_world_wf)
next
  case (step w op w')
  from step.IH step_host_ok [OF step.hyps(2)] exec_wf step.hyps(2) show ?case
    by (fastforce simp: step_def)
qed

text \<open>
  C13. Every heap a host can reach from the empty heap satisfies the
  invariant \<open>arrow_wf\<close>, and on it every admissible call returns: no
  dispatch runs out of depth and no call fails except by misuse.
\<close>

theorem reachable_wf:
  assumes "reachable w"
  shows "arrow_wf w \<and> (\<forall>op. host_ok w op \<longrightarrow> (\<exists>w'. step op w = Some w'))"
  using reachable_arrow_wf [OF assms] exec_wf by (auto simp: step_def)

lemma in_observers_iff: "k \<in> set (observers ls) \<longleftrightarrow> (\<exists>h. (h, Observer k) \<in> set ls)"
  by (induction ls rule: observers.induct) auto

subsection \<open>The slots\<close>

lemma fst_wrap_color: "fst (wrap_color v w) = wrapped v (next_cprop w)"
  by (cases v) (simp_all add: wrap_color_def)

lemma subscribe_color_slots:
  "slots (subscribe_color a pa nv w) = (slots w)(a \<mapsto> nv)"
  by (auto simp: slots_def subscribe_color_def split: option.split prod.split)

lemma set_color_slots:
  assumes "set_color a v w = Some w'"
  shows "slots w' = (slots w)(a \<mapsto> fst (wrap_color v w))"
proof -
  from assms obtain pa where a: "arrows w a = Some pa" by (auto simp: set_color_def split: option.splits)
  obtain nv w1 where wr: "wrap_color v w = (nv, w1)" by fastforce
  from wrap_color_frame [OF wr] have s1: "slots w1 = slots w" by (simp add: slots_def)
  show ?thesis
  proof (cases "nv = p_color pa")
    case True
    with assms a wr s1 show ?thesis by (auto simp: set_color_def slots_def)
  next
    case False
    let ?w2 = "subscribe_color a pa nv (unsubscribe_color pa w1)"
    from assms a wr False obtain s where w': "w' = ?w2\<lparr>ns := s\<rparr>"
      by (auto simp: set_color_def Let_def)
    have "slots (unsubscribe_color pa w1) = slots w1"
      using unsubscribe_color_frame [of pa w1] by (simp add: slots_def)
    with w' s1 wr show ?thesis by (simp add: slots_def [of "?w2\<lparr>ns := s\<rparr>"] subscribe_color_slots [unfolded slots_def]
      flip: slots_def)
  qed
qed

text \<open>
  C16. At the level of slots, host calls refine the abstract assignment:
  construction adds a slot holding the wrapped argument, assignment
  overwrites one slot with the wrapped value, and every other call (reads,
  sub-property changes, subscriptions) leaves every slot unchanged.
\<close>

theorem step_slots:
  "step op w = Some w' \<Longrightarrow> slots w' = slots_exec op (next_arrow w) (next_cprop w) (slots w)"
proof (cases op)
  case (NewArrow v)
  assume "step op w = Some w'"
  with NewArrow have "set_color (next_arrow w) v (snd (arrow_init w)) = Some w'"
    by (simp add: step_def exec_def PolylineArrowMaterialProperty_eq option.map_comp comp_def split: if_splits)
  from set_color_slots [OF this] NewArrow show ?thesis
    by (simp add: fst_wrap_color slots_def arrow_init_def fun_eq_iff)
next
  case (AssignColor a v)
  assume "step op w = Some w'"
  with AssignColor set_color_slots [of a v w w'] show ?thesis
    by (simp add: step_def exec_def fst_wrap_color split: if_splits)
next
  case (ReadValue a t r)
  assume "step op w = Some w'"
  with ReadValue obtain pa where "w' = snd (getValue pa t r w)"
    by (auto simp: step_def exec_def split: if_splits option.splits)
  with getValue_effect(8) [of pa t r w "fst (getValue pa t r w)" w'] ReadValue show ?thesis
    by (simp add: slots_def)
qed (auto simp: step_def exec_def slots_def new_cprop_def setValue_def addSample_def notify_def
      observe_def unobserve_def split: if_splits option.splits cprop.splits prod.splits)

subsection \<open>Typing of result objects\<close>

lemma set_color_frame_heaps:
  assumes "set_color a v w = Some w'"
  shows "ch w' = ch w \<and> bags w' = bags w"
proof -
  from assms obtain pa where a: "arrows w a = Some pa" by (auto simp: set_color_def split: option.splits)
  obtain nv w1 where wr: "wrap_color v w = (nv, w1)" by fastforce
  note f = wrap_color_frame [OF wr] unsubscribe_color_frame [of pa w1]
  have "ch (subscribe_color a pa nv (unsubscribe_color pa w1)) = ch w1 \<and>
      bags (subscribe_color a pa nv (unsubscribe_color pa w1)) = bags w1"
    using f by (auto simp: subscribe_color_def split: option.split prod.split)
  with assms a wr f show ?thesis by (auto simp: set_color_def Let_def split: if_splits)
qed

lemma exec_frame_heaps:
  assumes "exec op w = Some w'" and "\<And>a t r. op \<noteq> ReadValue a t r"
  shows "ch w' = ch w \<and> bags w' = bags w"
proof (cases op)
  case (NewArrow v)
  with assms have "set_color (next_arrow w) v (snd (arrow_init w)) = Some w'"
    by (simp add: exec_def PolylineArrowMaterialProperty_eq option.map_comp comp_def)
  from set_color_frame_heaps [OF this] show ?thesis by (simp add: arrow_init_def)
next
  case (AssignColor a v)
  with assms set_color_frame_heaps [of a v w w'] show ?thesis by (simp add: exec_def)
qed (use assms in \<open>auto simp: exec_def new_cprop_def setValue_def addSample_def notify_def
      observe_def unobserve_def split: if_splits option.splits cprop.splits prod.splits\<close>)

lemma getValue_typed:
  assumes "heap_typed w"
  shows "heap_typed (snd (getValue pa t r w))"
proof -
  obtain b w' where gv: "getValue pa t r w = (b, w')" by fastforce
  note e = getValue_effect [OF gv]
  have "colors (ch w') c \<noteq> None" if "colors (ch w) c \<noteq> None" for c
    using that e(3) e(4) by (cases "c = (case slot_value w (p_color pa) t of Some _ \<Rightarrow>
        (case Option.bind r (\<lambda>b. Option.bind (bags w b) bag_color) of Some x \<Rightarrow> x | None \<Rightarrow> next_color (ch w))
        | None \<Rightarrow> next_color (ch w))") auto
  moreover have "\<exists>c. bag_color bg = Some c \<and> colors (ch w') c \<noteq> None" if "bags w' b' = Some bg" for b' bg
  proof (cases "b' = b")
    case True
    with that e(2) e(3) show ?thesis by auto
  next
    case False
    with that e(5) have "bags w b' = Some bg" by simp
    with assms \<open>\<And>c. colors (ch w) c \<noteq> None \<Longrightarrow> colors (ch w') c \<noteq> None\<close> show ?thesis
      by (fastforce simp: heap_typed_def)
  qed
  ultimately show ?thesis using gv by (auto simp: heap_typed_def)
qed

lemma step_typed:
  assumes "heap_typed w" and "step op w = Some w'"
  shows "heap_typed w'"
proof (cases "\<exists>a t r. op = ReadValue a t r")
  case True
  then obtain a t r where op: "op = ReadValue a t r" by blast
  with assms(2) obtain pa where "w' = snd (getValue pa t r w)"
    by (auto simp: step_def exec_def split: if_splits option.splits)
  with getValue_typed [OF assms(1)] show ?thesis by simp
next
  case False
  with assms(2) exec_frame_heaps [of op w w'] have "ch w' = ch w \<and> bags w' = bags w"
    by (auto simp: step_def split: if_splits)
  with assms(1) show ?thesis by (simp add: heap_typed_def)
qed

text \<open>
  C19. The result objects are well typed on every reachable heap: every
  result object that \<open>getValue\<close> has returned has its \<open>color\<close> key defined,
  holding a \<open>Color\<close> object.
\<close>

theorem reachable_typed:
  "reachable w \<Longrightarrow> heap_typed w"
proof (induction rule: reachable.induct)
  case init
  then show ?case by (simp add: heap_typed_def empty_world_def)
next
  case (step w op w')
  from step_typed [OF step.IH step.hyps(2)] show ?case .
qed

end
