(* ===== verification/Spec2Isabelle.thy ===== *)
theory Spec2Isabelle
  imports Host
begin

text \<open>
  \<^bold>\<open>A verification development of \<open>PolylineArrowMaterialProperty\<close>.\<close>

  \<^bold>\<open>The program.\<close>  \<open>src/Source/DataSources/PolylineArrowMaterialProperty.js\<close>
  is a composite property of the data-source layer: an object with one
  reassignable slot \<open>color\<close> holding a colour-valued sub-property, its own
  change notifier \<open>_definitionChanged\<close> (a \<open>Core/Event\<close>), and the
  subscription \<open>_colorSubscription\<close> that re-raises that notifier whenever
  the sub-property changes.  \<open>getValue(time, result)\<close> resolves the colour
  through \<open>Property.getValueOrClonedDefault\<close> into a material parameter bag;
  \<open>isConstant\<close> and \<open>equals\<close> delegate to \<open>Property.isConstant\<close> and
  \<open>Property.equals\<close>.  The slot setter is installed by
  \<open>createPropertyDescriptor("color")\<close> (line 57).  \<open>Event\<close>, \<open>Color\<close>,
  \<open>Property\<close> and \<open>createPropertyDescriptor\<close> are not under \<open>src/\<close>; they
  are modelled from the contract of the spec (sections 4.1--4.3, 6).

  \<^bold>\<open>Heaps.\<close>  Object identity matters to the code (\<open>this === other\<close>,
  the no-op on identical assignment, copying into a caller's \<open>result\<close>), so
  objects live in explicit heaps addressed by natural numbers: colour
  objects in \<open>Color.color_heap\<close>, notifiers in
  \<open>Event.notifier_state\<close>, sub-properties in \<open>Property.pstate\<close>, and arrows
  and result bags in \<open>ArrowMaterial.world\<close>, which extends \<open>pstate\<close>.
  Every operation is a function from a heap to a result and a new heap;
  JavaScript \<open>undefined\<close> is \<open>None\<close>.

  \<^bold>\<open>Theories.\<close>
  \<^item> \<open>Prelude\<close>: type names, the \<open>heap_simps\<close> collection, and list lemmas
    on \<open>splice_first\<close>, the \<open>Array.prototype.splice\<close> the notifier's removal
    performs.
  \<^item> \<open>Color\<close>: \<open>color\<close>, \<open>color_WHITE\<close>, and \<open>color_clone\<close>, which is
    \<open>Color.clone(c, result)\<close>: it writes into \<open>result\<close>, or allocates.
  \<^item> \<open>Event\<close>: \<open>addEventListener\<close> (append, return a removal handle),
    \<open>removeEventListener\<close> (splice out the first matching registration),
    and \<open>raiseEvent\<close>, which delivers in registration order to a snapshot of
    the listeners.  A listener is a host \<open>Observer k\<close>, which appends \<open>k\<close>
    to the delivery \<open>log\<close>, or a \<open>Forward e\<close>, which raises event \<open>e\<close>.
    \<open>raiseEvent\<close> takes a nesting depth as fuel, and \<open>None\<close> is a dispatch
    that did not end within it.  The pure specification \<open>fired\<close> gives the
    delivered observers; \<open>raiseEvent_fired\<close> is the refinement lemma.
    \<open>fired_ranked_Some\<close> says a ranking of events bounds the depth.
    \<open>fired_self_forward\<close> says a forwarding cycle never returns.
  \<^item> \<open>Property\<close>: the two sub-property kinds that stand for the catalog,
    \<open>ConstantProperty\<close> and a sampled \<open>TimeVarying\<close> colour, each with its
    own event.  Also \<open>cprop_value\<close> (the node's \<open>getValue\<close>), \<open>cprop_equals\<close>
    (the node's \<open>equals\<close>), and \<open>getValueOrClonedDefault\<close>.
  \<^item> \<open>ArrowMaterial\<close>: the record \<open>polyline_arrow\<close> of the three fields
    (lines 16--18) and the constructor \<open>PolylineArrowMaterialProperty\<close>
    (lines 15--21).  The setter is \<open>set_color\<close>, in the phases
    \<open>wrap_color\<close> (the literal factory), \<open>unsubscribe_color\<close> and
    \<open>subscribe_color\<close>, then one \<open>raiseEvent\<close>.  Then \<open>isConstant\<close>
    (32--36), \<open>definitionChanged\<close> (46--50), \<open>getType\<close> (66--68),
    \<open>getValue_result\<close>/\<open>getValue\<close> (77--88), and \<open>equals\<close> (97--103).  The
    invariant \<open>arrow_wf\<close> has these parts.  Allocation is bounded.  Events
    are owned by one object each.  Forwards target arrows.  An arrow's own
    event has host observers only.  A non-empty slot has exactly one
    forwarding registration, on its node's event, and an empty slot none.
    \<open>arrow_inv D\<close> relaxes the last part for the arrows \<open>D\<close> in
    mid-assignment.
  \<^item> \<open>Host\<close>: the calls a renderer or UI binding makes, as the datatype
    \<open>host_op\<close>.  They are: construct, assign, read, create a constant or
    sampled node, \<open>ConstantProperty.setValue\<close>, \<open>addSample\<close>, subscribe, and
    call a removal.  \<open>host_ok\<close> is the admissibility of a call, \<open>step\<close> runs
    one, and the inductive \<open>reachable\<close> holds the heaps reachable from the
    empty heap by \<open>step\<close>.  \<open>reachable_arrow_wf\<close> shows by rule induction
    that each of them satisfies \<open>arrow_wf\<close>; that is where the setter's code
    carries the properties stated on reachable heaps.  \<open>slots\<close> and
    \<open>slots_exec\<close> are the abstract view of the arrows and the abstract
    effect of a call on it.
  \<^item> \<open>Spec2Isabelle\<close> (this theory): how a sub-property's change propagates
    to the host through the arrow, the spec's rule for \<open>equals\<close>, and every
    property at concrete heaps.

  \<^bold>\<open>What is proved.\<close>  The properties, C1 to C19, are listed in the order
  of the manifest.
  \<^item> The setter keeps the invariant (C1).  It raises the arrow's event
    once on a real replacement (C2).  On an identical assignment it
    notifies nobody and keeps the slot (C3).  A literal assignment always
    stores a fresh node and notifies every observer of the arrow (C14).
  \<^item> On every reachable heap, a change of a sub-property reaches exactly
    its own observers and the observers of the arrows holding it (C4), and
    each arrow holds exactly one subscription to the node in its slot and
    none to any other (C5).
  \<^item> \<open>getValue\<close> returns the caller's result object or a fresh one and fills
    \<open>color\<close> with the slot's value or white (C6).  It never hands out a
    shared colour object (C7).  It is time-independent when \<open>isConstant\<close>
    holds (C8).  With no value, it allocates a fresh white even when the
    result already holds a colour (C15).  It allocates exactly what C17
    states.
  \<^item> \<open>equals\<close> implies equal resolved colours (C9) and is an equivalence
    (C10).  It coincides with the spec's slot-wise rule \<open>spec_equals\<close>
    (C18).
  \<^item> The constructor establishes the invariant (C11).  Without an argument
    it leaves the slot empty, is constant, reads white, and notifies nobody
    (C12).
  \<^item> Host level: every reachable heap is well formed and every admissible
    call on it returns (C13).  Calls change the slots only as the abstract
    assignment says (C16).  On every reachable heap each result object
    \<open>getValue\<close> has returned holds a \<open>color\<close> referring to an allocated
    \<open>Color\<close> (C19).

  \<^bold>\<open>Fuel.\<close>  \<open>dispatch_fuel = 2\<close>.  A raise of a node's event delivers
  to forwards into arrow events.  An arrow's event has only host observers
  (\<open>observers_only\<close>).  So two levels of \<open>raiseEvent\<close> suffice on every
  well-formed heap (\<open>arrow_inv_dispatch\<close>, \<open>node_raise_notified\<close>); nothing
  is cut off, and C4 and C13 state that the raise returns.

  \<^bold>\<open>Not modelled.\<close>
  \<^item> Every member of \<open>PolylineArrowMaterialProperty.js\<close> is modelled.  The
    lines left unmapped are the imports (lines 1--5), the documentation
    comments and \<open>export default\<close> (line 104), which do no work of their own.
  \<^item> Rendering and material binding consume the bag and are outside this
    program.
  \<^item> The catalog of property kinds is replaced by the two stand-in kinds.
  \<^item> Host callbacks only record their delivery: callbacks that subscribe,
    unsubscribe or change properties during a dispatch are not modelled.
  \<^item> \<open>time\<close> is an integer and is only passed on.
  \<^item> The sampled property's sorted insertion and interpolation are
    replaced by a sample list that \<open>map_of\<close> reads and \<open>addSample\<close>
    prepends to.
  \<^item> \<open>createPropertyDescriptor\<close> is modelled as the spec states the setter
    (section 4.3), which is not its exact order: the real helper
    unsubscribes before the identity test and raises before subscribing,
    and it re-subscribes on an identical assignment.  C3 states only what
    both orders agree on.  \<open>wrap_color\<close> wraps only colour literals.
\<close>

section \<open>Propagation of sub-property changes\<close>

text \<open>
  What one raise of a sub-property's event delivers: its host observers
  directly, and for every forwarding registration the observers of the
  arrow event it re-raises.
\<close>

definition notified :: "(evid \<Rightarrow> (handle \<times> listener) list) \<Rightarrow> (handle \<times> listener) list \<Rightarrow> nat list" where
  "notified E ls = concat (map (\<lambda>x. case snd x of Observer k \<Rightarrow> [k] | Forward e \<Rightarrow> observers (E e)) ls)"

text \<open>
  The rule of spec sections 4.3 and 8 for \<open>equals\<close> on two composites:
  the same identity, or slot-wise equality on \<open>color\<close>, where two absent
  slots are equal, an absent and a present slot are not, and two present
  slots are equal when the nodes are (\<open>node.equals\<close>).
\<close>

fun slot_eq :: "'a pstate_scheme \<Rightarrow> addr option \<Rightarrow> addr option \<Rightarrow> bool" where
  "slot_eq w None None = True"
| "slot_eq w None (Some q) = False"
| "slot_eq w (Some p) None = False"
| "slot_eq w (Some p) (Some q) = cprop_equals w p (Some q)"

definition spec_equals :: "world \<Rightarrow> addr \<Rightarrow> pref option \<Rightarrow> bool" where
  "spec_equals w a other =
     (case other of
        Some (ArrowRef b) \<Rightarrow>
          a = b \<or> (case (arrows w a, arrows w b) of
                     (Some pa, Some pb) \<Rightarrow> slot_eq w (p_color pa) (p_color pb)
                   | _ \<Rightarrow> False)
      | _ \<Rightarrow> False)"

section \<open>Concrete heaps\<close>

text \<open>
  A host scenario the witnesses evaluate: one arrow with an observer
  (\<open>scene_one\<close>), a red literal assigned to it (\<open>scene_two\<close>), and a second
  arrow constructed with the same literal (\<open>scene_three\<close>).
\<close>

definition RED :: color where
  "RED = \<lparr>red = 1, green = 0, blue = 0, alpha = 1\<rparr>"

definition scene_zero :: world where
  "scene_zero = snd (arrow_init empty_world)"

definition scene_one :: world where
  "scene_one = snd (observe 0 7 (snd (arrow_init empty_world)))"

definition scene_two :: world where
  "scene_two = the (set_color 0 (ColorValue RED) scene_one)"

definition scene_three :: world where
  "scene_three = snd (the (PolylineArrowMaterialProperty (ColorValue RED) scene_two))"

lemma fired_list_one_level:
  "(\<And>h e. (h, Forward e) \<in> set ls \<Longrightarrow> \<forall>x\<in>set (E e). is_observer (snd x)) \<Longrightarrow>
   fired_list (Suc 0) ls E = Some (notified E ls)"
proof (induction ls)
  case Nil
  then show ?case by (simp add: notified_def)
next
  case (Cons x ls)
  from Cons.prems have IH: "fired_list (Suc 0) ls E = Some (notified E ls)"
    by (intro Cons.IH) auto
  obtain h l where x: "x = (h, l)" by fastforce
  show ?case
  proof (cases l)
    case (Forward e)
    with Cons.prems x have "\<forall>y\<in>set (E e). is_observer (snd y)" by auto
    then have "fired (Suc 0) e E = Some (observers (E e))" by (simp add: fired_list_observers)
    with IH Forward x show ?thesis by (simp add: notified_def)
  next
    case (Observer k)
    with IH x show ?thesis by (simp add: notified_def)
  qed
qed

lemma forward_targets_observers:
  assumes wf: "arrow_wf w" and f: "(h, Forward e) \<in> set (events (ns w) e0)"
  shows "\<forall>x\<in>set (events (ns w) e). is_observer (snd x)"
proof -
  from wf have fw: "forwards_ok w"
    and obs: "\<And>b pb. arrows w b = Some pb \<Longrightarrow> observers_only w pb"
    by (simp_all add: arrow_wf_def arrow_inv_def)
  from fw f obtain b pb where "arrows w b = Some pb" "p_definitionChanged pb = e"
    unfolding forwards_ok_def by blast
  with obs show ?thesis by (auto simp: observers_only_def)
qed

lemmas scene_simps = scene_one_def observe_def arrow_init_def empty_world_def addEventListener_def
  set_color_def wrap_color_def unsubscribe_color_def subscribe_color_def dispatch_fuel_def
  removeEventListener_def numeral_2_eq_2 PolylineArrowMaterialProperty_def

lemmas read_simps = getValue_def getValue_result_def getValueOrClonedDefault_def
  cprop_value_def read_color_def isConstant_def

lemma scene_two_eq: "set_color 0 (ColorValue RED) scene_one = Some scene_two"
  by (simp add: scene_two_def scene_simps)

lemma scene_one_facts:
  "arrows scene_one 0 = Some \<lparr>p_definitionChanged = 0, p_color = None, p_colorSubscription = None\<rparr>"
  "events (ns scene_one) 0 = [(0, Observer 7)]" "log (ns scene_one) = []"
  "next_color (ch scene_one) = 0" "next_cprop scene_one = 0"
  by (simp_all add: scene_simps)

lemma scene_two_facts:
  "arrows scene_two 0 = Some \<lparr>p_definitionChanged = 0, p_color = Some 0, p_colorSubscription = Some (1, 1)\<rparr>"
  "cprops scene_two 0 = Some (ConstantProperty (Some RED) 1)"
  "events (ns scene_two) 0 = [(0, Observer 7)]" "events (ns scene_two) 1 = [(1, Forward 0)]"
  "log (ns scene_two) = [7]" "ch scene_two = ch empty_world"
  by (simp_all add: scene_two_def scene_simps)

lemma scene_three_facts:
  "arrows scene_three 0 = Some \<lparr>p_definitionChanged = 0, p_color = Some 0, p_colorSubscription = Some (1, 1)\<rparr>"
  "arrows scene_three 1 = Some \<lparr>p_definitionChanged = 2, p_color = Some 1, p_colorSubscription = Some (3, 2)\<rparr>"
  "cprops scene_three 0 = Some (ConstantProperty (Some RED) 1)"
  "cprops scene_three 1 = Some (ConstantProperty (Some RED) 3)"
  by (simp_all add: scene_three_def scene_two_def scene_simps)

lemma scene_one_wf: "arrow_wf scene_one"
proof -
  have "arrow_inv {} (snd (arrow_init empty_world))"
    using arrow_init_inv [of "{}" empty_world] empty_world_wf by (simp add: arrow_wf_def)
  moreover have "0 < next_ev (ns (snd (arrow_init empty_world)))"
    by (simp add: arrow_init_def empty_world_def)
  ultimately show ?thesis
    using observe_inv [of "{}" _ 0 7] by (simp add: arrow_wf_def scene_one_def)
qed

lemma scene_two_wf: "arrow_wf scene_two"
  using set_color_keeps_wf [OF scene_one_wf scene_one_facts(1), of "ColorValue RED"] scene_two_eq
  by (simp add: input_ok_def)

lemma scene_zero_wf: "arrow_wf scene_zero"
  using arrow_init_inv [of "{}" empty_world] empty_world_wf by (simp add: arrow_wf_def scene_zero_def)

lemma scene_one_observe: "observe 0 7 scene_zero = (0, scene_one)"
  by (simp add: scene_zero_def scene_simps)

lemma reachable_scene_one: "reachable scene_one"
proof -
  have "step (NewArrow NoColor) empty_world = Some scene_zero"
    by (simp add: step_def exec_def host_ok_def input_ok_def scene_zero_def scene_simps)
  then have "reachable scene_zero" by (rule reachable.step [OF reachable.init])
  moreover have "step (Subscribe 0 7) scene_zero = Some scene_one"
    by (simp add: step_def exec_def host_ok_def scene_zero_def scene_simps)
  ultimately show ?thesis by (rule reachable.step)
qed

lemma step_scene_two: "step (AssignColor 0 (ColorValue RED)) scene_one = Some scene_two"
  using scene_two_eq scene_one_facts(1) by (simp add: step_def exec_def host_ok_def input_ok_def)

lemma set_notified:
  "set (notified E ls) = {k. \<exists>h. (h, Observer k) \<in> set ls} \<union>
     {k. \<exists>h e. (h, Forward e) \<in> set ls \<and> k \<in> set (observers (E e))}"
proof (induction ls)
  case Nil
  then show ?case by (simp add: notified_def)
next
  case (Cons x ls)
  obtain h l where x: "x = (h, l)" by fastforce
  from Cons.IH show ?case by (cases l) (auto simp: notified_def x)
qed

lemma subscribers_count:
  assumes wf: "arrow_wf w" and p: "cprops w p = Some n" and a: "arrows w a = Some pa"
  shows "length (filter (\<lambda>x. snd x = Forward (p_definitionChanged pa)) (events (ns w) (cprop_ev n))) =
           (if get_color pa = Some p then 1 else 0)"
proof -
  from wf a have sl: "slot_ok w pa" and ex: "subscription_exact w pa"
    by (simp_all add: arrow_wf_def arrow_inv_def)
  from wf have own: "events_owned w" by (simp add: arrow_wf_def arrow_inv_def)
  show ?thesis
  proof (cases "p_color pa")
    case None
    with sl ex show ?thesis by (simp add: slot_ok_def subscription_exact_def get_color_def)
  next
    case (Some q)
    with sl obtain m h where m: "cprops w q = Some m" "p_colorSubscription pa = Some (cprop_ev m, h)"
      by (auto simp: slot_ok_def)
    from own p m(1) have "cprop_ev m = cprop_ev n \<longleftrightarrow> q = p"
      by (auto simp: events_owned_def)
    with ex m(2) Some show ?thesis
      by (auto simp: subscription_exact_def get_color_def)
  qed
qed

lemma forward_iff_holder:
  assumes wf: "arrow_wf w" and p: "cprops w p = Some n"
  shows "(\<exists>h. (h, Forward e) \<in> set (events (ns w) (cprop_ev n))) \<longleftrightarrow>
           (\<exists>a pa. arrows w a = Some pa \<and> get_color pa = Some p \<and> p_definitionChanged pa = e)"
proof
  assume "\<exists>h. (h, Forward e) \<in> set (events (ns w) (cprop_ev n))"
  then obtain h where h: "(h, Forward e) \<in> set (events (ns w) (cprop_ev n))" by blast
  from wf have "forwards_ok w" by (simp add: arrow_wf_def arrow_inv_def)
  with h obtain a pa where a: "arrows w a = Some pa" and e: "p_definitionChanged pa = e"
    unfolding forwards_ok_def by blast
  from h e have "filter (\<lambda>x. snd x = Forward (p_definitionChanged pa)) (events (ns w) (cprop_ev n)) \<noteq> []"
    by (force simp: filter_empty_conv)
  with subscribers_count [OF wf p a] have "get_color pa = Some p"
    by (auto split: if_splits)
  with a e show "\<exists>a pa. arrows w a = Some pa \<and> get_color pa = Some p \<and> p_definitionChanged pa = e" by blast
next
  assume "\<exists>a pa. arrows w a = Some pa \<and> get_color pa = Some p \<and> p_definitionChanged pa = e"
  then obtain a pa where a: "arrows w a = Some pa" and g: "get_color pa = Some p"
    and e: "p_definitionChanged pa = e" by blast
  from subscribers_count [OF wf p a] g
  have "filter (\<lambda>x. snd x = Forward e) (events (ns w) (cprop_ev n)) \<noteq> []" by (auto simp: e)
  then obtain x where "x \<in> set (events (ns w) (cprop_ev n))" "snd x = Forward e"
    by (auto simp: filter_empty_conv)
  then show "\<exists>h. (h, Forward e) \<in> set (events (ns w) (cprop_ev n))"
    by (metis prod.collapse)
qed

lemma node_raise_notified:
  assumes wf: "arrow_wf w"
  shows "raiseEvent dispatch_fuel e (ns w) =
           Some ((ns w)\<lparr>log := log (ns w) @ notified (events (ns w)) (events (ns w) e)\<rparr>)"
proof -
  have "fired_list (Suc 0) (events (ns w) e) (events (ns w)) =
      Some (notified (events (ns w)) (events (ns w) e))"
    using forward_targets_observers [OF wf] by (intro fired_list_one_level) blast
  then show ?thesis by (simp add: raiseEvent_fired dispatch_fuel_def numeral_2_eq_2)
qed

lemma reachable_scene_two: "reachable scene_two"
  using reachable.step [OF reachable_scene_one step_scene_two] .

text \<open>
  C4. On every heap a host can reach, raising a sub-property's event (what
  a change of the node does) returns within the dispatch depth and calls
  exactly the node's own host observers together with the host observers
  of every arrow whose \<open>color\<close> slot holds the node, and nobody else: the
  subscription the setter makes forwards each change of the colour to the
  composite's \<open>definitionChanged\<close>, and a replaced node reaches nobody.
\<close>

theorem subproperty_change_notifies:
  assumes r: "reachable w" and p: "cprops w p = Some n"
  shows "\<exists>xs. raiseEvent dispatch_fuel (cprop_ev n) (ns w) = Some ((ns w)\<lparr>log := log (ns w) @ xs\<rparr>) \<and>
           set xs = set (observers (events (ns w) (cprop_ev n))) \<union>
             {k. \<exists>a pa. arrows w a = Some pa \<and> get_color pa = Some p \<and>
                 k \<in> set (observers (events (ns w) (definitionChanged pa)))}"
proof -
  from r have wf: "arrow_wf w" by (rule reachable_arrow_wf)
  have "set (notified (events (ns w)) (events (ns w) (cprop_ev n))) =
      set (observers (events (ns w) (cprop_ev n))) \<union>
      {k. \<exists>a pa. arrows w a = Some pa \<and> get_color pa = Some p \<and>
          k \<in> set (observers (events (ns w) (definitionChanged pa)))}"
  proof -
    have obs: "{k. \<exists>h. (h, Observer k) \<in> set (events (ns w) (cprop_ev n))} =
        set (observers (events (ns w) (cprop_ev n)))"
      by (auto simp: in_observers_iff)
    have fw: "{k. \<exists>h e. (h, Forward e) \<in> set (events (ns w) (cprop_ev n)) \<and> k \<in> set (observers (events (ns w) e))} =
        {k. \<exists>a pa. arrows w a = Some pa \<and> get_color pa = Some p \<and>
          k \<in> set (observers (events (ns w) (definitionChanged pa)))}"
      (is "?L = ?R")
    proof (rule set_eqI, rule iffI)
      fix k assume "k \<in> ?L"
      then obtain h e where h: "(h, Forward e) \<in> set (events (ns w) (cprop_ev n))"
        and k: "k \<in> set (observers (events (ns w) e))" by blast
      from h forward_iff_holder [OF wf p, of e] obtain a pa where
        "arrows w a = Some pa" "get_color pa = Some p" "p_definitionChanged pa = e" by blast
      with k show "k \<in> ?R" by (auto simp: definitionChanged_def)
    next
      fix k assume "k \<in> ?R"
      then obtain a pa where a: "arrows w a = Some pa" "get_color pa = Some p"
        and k: "k \<in> set (observers (events (ns w) (definitionChanged pa)))" by blast
      with forward_iff_holder [OF wf p, of "p_definitionChanged pa"] obtain h where
        "(h, Forward (p_definitionChanged pa)) \<in> set (events (ns w) (cprop_ev n))" by blast
      with k show "k \<in> ?L" by (auto simp: definitionChanged_def)
    qed
    show ?thesis by (simp only: set_notified obs fw)
  qed
  with node_raise_notified [OF wf] show ?thesis by blast
qed

text \<open>
  C5. On every heap a host can reach, an arrow is subscribed to a
  sub-property's event exactly once when its \<open>color\<close> slot holds that
  sub-property, and not at all otherwise: the setter never leaves a stale
  subscription behind and never subscribes twice.
\<close>

theorem subproperty_subscribers:
  assumes r: "reachable w" and p: "cprops w p = Some n" and a: "arrows w a = Some pa"
  shows "length (filter (\<lambda>x. snd x = Forward (definitionChanged pa)) (events (ns w) (cprop_ev n))) =
           (if get_color pa = Some p then 1 else 0)"
  using subscribers_count [OF reachable_arrow_wf [OF r] p a] by (simp add: definitionChanged_def)

text \<open>
  C18. \<open>equals\<close> (line 97--103, with \<open>Property.equals\<close> inlined) is the
  spec's rule: identity, or slot-wise equality with absent equal to absent
  only.
\<close>

theorem equals_spec:
  "equals w a other = spec_equals w a other"
proof (cases "arrows w a")
  case None
  then show ?thesis
    by (auto simp: equals_def spec_equals_def split: option.splits pref.splits)
next
  case (Some pa)
  show ?thesis
  proof (cases other)
    case None
    with \<open>arrows w a = Some pa\<close> show ?thesis by (simp add: equals_def spec_equals_def)
  next
    case (Some o')
    show ?thesis
    proof (cases o')
      case (ColorRef q)
      with \<open>other = Some o'\<close> \<open>arrows w a = Some pa\<close> show ?thesis by (simp add: equals_def spec_equals_def)
    next
      case (ArrowRef b)
      with \<open>other = Some o'\<close> \<open>arrows w a = Some pa\<close> show ?thesis
        by (cases "arrows w b"; cases "p_color pa"; simp add: equals_def spec_equals_def;
            cases "p_color (the (arrows w b))"; auto)
    qed
  qed
qed

section \<open>The properties at concrete heaps\<close>

theorem set_color_same_noop_witness:
  "arrows scene_one 0 = Some \<lparr>p_definitionChanged = 0, p_color = None, p_colorSubscription = None\<rparr> \<and>
   same_value \<lparr>p_definitionChanged = 0, p_color = None, p_colorSubscription = None\<rparr> NoColor \<and>
   (\<exists>w' pa'. set_color 0 NoColor scene_one = Some w' \<and> log (ns w') = [] \<and>
      arrows w' 0 = Some pa' \<and> get_color pa' = None)"
proof -
  have s: "same_value \<lparr>p_definitionChanged = 0, p_color = None, p_colorSubscription = None\<rparr> NoColor"
    by (simp add: same_value_def)
  from set_color_same_noop [OF scene_one_facts(1) s] s scene_one_facts show ?thesis
    by (simp add: get_color_def)
qed

theorem subproperty_change_notifies_witness:
  "reachable scene_two \<and> cprops scene_two 0 = Some (ConstantProperty (Some RED) 1) \<and>
   (\<exists>xs. raiseEvent dispatch_fuel 1 (ns scene_two) = Some ((ns scene_two)\<lparr>log := [7] @ xs\<rparr>) \<and> 7 \<in> set xs)"
proof -
  obtain xs where r: "raiseEvent dispatch_fuel (cprop_ev (ConstantProperty (Some RED) 1)) (ns scene_two) =
      Some ((ns scene_two)\<lparr>log := log (ns scene_two) @ xs\<rparr>)"
    and st: "set xs = set (observers (events (ns scene_two) (cprop_ev (ConstantProperty (Some RED) 1)))) \<union>
      {k. \<exists>a pa. arrows scene_two a = Some pa \<and> get_color pa = Some 0 \<and>
          k \<in> set (observers (events (ns scene_two) (definitionChanged pa)))}"
    using subproperty_change_notifies [OF reachable_scene_two scene_two_facts(2)] by blast
  have "7 \<in> {k. \<exists>a pa. arrows scene_two a = Some pa \<and> get_color pa = Some 0 \<and>
      k \<in> set (observers (events (ns scene_two) (definitionChanged pa)))}"
    using scene_two_facts(1,3) unfolding get_color_def definitionChanged_def by fastforce
  with st have "7 \<in> set xs" by blast
  with r show ?thesis by (auto simp: reachable_scene_two scene_two_facts)
qed

theorem subproperty_subscribers_witness:
  "reachable scene_two \<and> cprops scene_two 0 = Some (ConstantProperty (Some RED) 1) \<and>
   arrows scene_two 0 = Some \<lparr>p_definitionChanged = 0, p_color = Some 0, p_colorSubscription = Some (1, 1)\<rparr> \<and>
   length (filter (\<lambda>x. snd x = Forward 0) (events (ns scene_two) 1)) = 1"
  using subproperty_subscribers [OF reachable_scene_two scene_two_facts(2) scene_two_facts(1)]
  by (simp add: reachable_scene_two scene_two_facts get_color_def definitionChanged_def)

theorem set_color_literal_notifies_witness:
  "arrow_wf scene_two \<and>
   arrows scene_two 0 = Some \<lparr>p_definitionChanged = 0, p_color = Some 0, p_colorSubscription = Some (1, 1)\<rparr> \<and>
   (\<exists>w' pa' p. set_color 0 (ColorValue RED) scene_two = Some w' \<and> arrows w' 0 = Some pa' \<and>
      get_color pa' = Some p \<and> p \<notin> dom (cprops scene_two) \<and> (\<forall>t. cprop_value w' p t = Some RED) \<and>
      log (ns w') = [7, 7])"
  using set_color_literal_notifies [OF scene_two_wf scene_two_facts(1), where c = RED]
  by (simp add: scene_two_wf scene_two_facts)

theorem set_color_wf_witness:
  "arrow_wf scene_one \<and>
   arrows scene_one 0 = Some \<lparr>p_definitionChanged = 0, p_color = None, p_colorSubscription = None\<rparr> \<and>
   input_ok scene_one (ColorValue RED) \<and>
   (\<exists>w' pa'. set_color 0 (ColorValue RED) scene_one = Some w' \<and> arrow_wf w' \<and>
      arrows w' 0 = Some pa' \<and> get_color pa' = Some 0)"
proof -
  have v: "input_ok scene_one (ColorValue RED)" by (simp add: input_ok_def)
  have "fst (wrap_color (ColorValue RED) scene_one) = Some 0"
    by (simp add: wrap_color_def scene_one_facts)
  with set_color_wf [OF scene_one_wf scene_one_facts(1) v] v scene_one_wf scene_one_facts(1)
  show ?thesis by simp
qed

theorem set_color_notifies_once_witness:
  "\<not> same_value \<lparr>p_definitionChanged = 0, p_color = None, p_colorSubscription = None\<rparr> (ColorValue RED) \<and>
   log (ns scene_two) = log (ns scene_one) @ observers (events (ns scene_one) 0) \<and>
   log (ns scene_two) = [7]"
proof -
  have v: "input_ok scene_one (ColorValue RED)" by (simp add: input_ok_def)
  have n: "\<not> same_value \<lparr>p_definitionChanged = 0, p_color = None, p_colorSubscription = None\<rparr> (ColorValue RED)"
    by (simp add: same_value_def)
  from set_color_notifies_once [OF scene_one_wf scene_one_facts(1) v n scene_two_eq] n
  show ?thesis by (simp add: scene_one_facts)
qed

theorem getValue_copy_on_read_witness:
  "color_heap_wf (ch scene_two) \<and>
   (case getValue \<lparr>p_definitionChanged = 0, p_color = Some 0, p_colorSubscription = Some (1, 1)\<rparr> 0 None scene_two of
      (b, w') \<Rightarrow> \<forall>c. Option.bind (bags w' b) bag_color = Some c \<longrightarrow> colors (ch scene_two) c \<noteq> None \<longrightarrow>
         Option.bind None (\<lambda>b. Option.bind (bags scene_two b) bag_color) = Some c)"
proof -
  have h: "color_heap_wf (ch scene_two)"
    by (simp add: scene_two_facts color_heap_wf_def empty_world_def)
  from getValue_copy_on_read [OF h, where
      pa = "\<lparr>p_definitionChanged = 0, p_color = Some 0, p_colorSubscription = Some (1, 1)\<rparr>"
      and t = 0 and r = None] h
  show ?thesis by blast
qed

theorem isConstant_getValue_witness:
  "isConstant \<lparr>p_definitionChanged = 0, p_color = Some 0, p_colorSubscription = Some (1, 1)\<rparr> scene_two \<and>
   (case getValue \<lparr>p_definitionChanged = 0, p_color = Some 0, p_colorSubscription = Some (1, 1)\<rparr> 0 None scene_two of
      (b, w') \<Rightarrow> read_color w' b) =
   (case getValue \<lparr>p_definitionChanged = 0, p_color = Some 0, p_colorSubscription = Some (1, 1)\<rparr> 5 None scene_two of
      (b, w') \<Rightarrow> read_color w' b)"
proof -
  have c: "isConstant \<lparr>p_definitionChanged = 0, p_color = Some 0, p_colorSubscription = Some (1, 1)\<rparr> scene_two"
    by (simp add: isConstant_def scene_two_facts)
  from isConstant_getValue [OF c, where t = 0 and r = None and t' = 5 and r' = None] c
  show ?thesis by simp
qed

theorem equals_getValue_witness:
  "equals scene_three 0 (Some (ArrowRef 1)) \<and>
   arrows scene_three 0 = Some \<lparr>p_definitionChanged = 0, p_color = Some 0, p_colorSubscription = Some (1, 1)\<rparr> \<and>
   arrows scene_three 1 = Some \<lparr>p_definitionChanged = 2, p_color = Some 1, p_colorSubscription = Some (3, 2)\<rparr> \<and>
   slot_value scene_three (Some 0) 0 = slot_value scene_three (Some 1) 0"
proof -
  have e: "equals scene_three 0 (Some (ArrowRef 1))"
    using scene_three_facts by (simp add: equals_def cprop_equals_def)
  from equals_getValue [OF e scene_three_facts(1,2), where t = 0] e scene_three_facts(1,2)
  show ?thesis by simp
qed

theorem equals_equivalence_witness:
  "equals scene_three 0 (Some (ArrowRef 1)) \<and> equals scene_three 1 (Some (ArrowRef 0)) \<and>
   equals scene_three 1 (Some (ArrowRef 1))"
proof -
  have e: "equals scene_three 0 (Some (ArrowRef 1))"
    using scene_three_facts by (simp add: equals_def cprop_equals_def)
  with equals_equivalence [of scene_three 1 0 1] show ?thesis by blast
qed

theorem PolylineArrowMaterialProperty_wf_witness:
  "arrow_wf scene_two \<and> input_ok scene_two (ColorValue RED) \<and>
   (\<exists>a w' pa. PolylineArrowMaterialProperty (ColorValue RED) scene_two = Some (a, w') \<and> arrow_wf w' \<and>
      arrows w' a = Some pa \<and> p_color pa = Some 1)"
proof -
  have v: "input_ok scene_two (ColorValue RED)" by (simp add: input_ok_def)
  have "fst (wrap_color (ColorValue RED) (snd (arrow_init scene_two))) = Some 1"
    by (simp add: wrap_color_def arrow_init_def scene_two_def scene_simps)
  with PolylineArrowMaterialProperty_wf [OF scene_two_wf v] v scene_two_wf
  show ?thesis by simp
qed

theorem getValue_default_fresh_witness:
  "slot_value scene_one None 0 = None \<and>
   (case getValue \<lparr>p_definitionChanged = 0, p_color = None, p_colorSubscription = None\<rparr> 0 None scene_one of
      (b, w') \<Rightarrow> Option.bind (bags w' b) bag_color = Some 0)"
  using getValue_default_fresh [where w = scene_one and t = 0 and r = None and
      pa = "\<lparr>p_definitionChanged = 0, p_color = None, p_colorSubscription = None\<rparr>"]
  by (simp add: scene_one_facts)

theorem reachable_wf_witness:
  "reachable scene_one \<and> arrow_wf scene_one \<and> host_ok scene_one (AssignColor 0 (ColorValue RED)) \<and>
   (\<exists>w'. step (AssignColor 0 (ColorValue RED)) scene_one = Some w')"
proof -
  have "host_ok scene_one (AssignColor 0 (ColorValue RED))"
    by (simp add: host_ok_def input_ok_def scene_one_facts)
  with reachable_wf [OF reachable_scene_one] reachable_scene_one show ?thesis by blast
qed

theorem step_slots_witness:
  "step (AssignColor 0 (ColorValue RED)) scene_one = Some scene_two \<and>
   slots scene_two = (slots scene_one)(0 \<mapsto> Some 0)"
  using step_slots [OF step_scene_two] step_scene_two by (simp add: scene_one_facts)

theorem getValue_allocation_witness:
  "case getValue \<lparr>p_definitionChanged = 0, p_color = Some 0, p_colorSubscription = Some (1, 1)\<rparr> 0 None scene_two of
     (b, w') \<Rightarrow> next_bag w' = 1 \<and> next_color (ch w') = 1"
proof -
  obtain b w' where gv: "getValue \<lparr>p_definitionChanged = 0, p_color = Some 0, p_colorSubscription = Some (1, 1)\<rparr> 0 None scene_two = (b, w')"
    by fastforce
  have "next_bag scene_two = 0" "next_color (ch scene_two) = 0"
    by (simp_all add: scene_two_def scene_simps)
  with getValue_allocation [OF gv] gv show ?thesis by simp
qed

theorem reachable_typed_witness:
  "\<exists>w'. step (ReadValue 0 0 None) scene_one = Some w' \<and> reachable w' \<and> heap_typed w' \<and>
     bags w' 0 = Some \<lparr>bag_color = Some 0\<rparr>"
proof -
  obtain w' where st: "step (ReadValue 0 0 None) scene_one = Some w'" and b: "bags w' 0 = Some \<lparr>bag_color = Some 0\<rparr>"
    by (simp add: step_def exec_def host_ok_def read_simps scene_simps)
  from st have r: "reachable w'" by (rule reachable.step [OF reachable_scene_one])
  from reachable_typed [OF r] r st b show ?thesis by blast
qed

end
